theory Spec2Isabelle
  imports Main "HOL-Library.Sublist" "HOL-Library.Multiset"
begin

section \<open>Go strings\<close>

text \<open>
  A Go \<^verbatim>\<open>string\<close> is a sequence of bytes, here a \<^typ>\<open>string\<close> whose characters are
  the bytes. The functions of the packages \<^verbatim>\<open>unicode/utf8\<close>, \<^verbatim>\<open>unicode\<close> and
  \<^verbatim>\<open>strings\<close> that \<^verbatim>\<open>server/plugin.go\<close> calls are written out after the library:
  they decode UTF-8 the way the library does, so that a string that is not valid UTF-8
  is treated as the library treats it.
\<close>

type_synonym rune = nat

definition byte :: "char \<Rightarrow> nat" where
  "byte c = of_char c"

definition RuneError :: rune where
  "RuneError = 0xFFFD"

definition RuneSelf :: nat where
  "RuneSelf = 0x80"

definition UTFMax :: int where
  "UTFMax = 4"

text \<open>
  \<^verbatim>\<open>utf8.DecodeRuneInString\<close>: the first byte gives the length of the encoding and the
  range accepted for the second byte (the library's tables \<^verbatim>\<open>first\<close> and
  \<^verbatim>\<open>acceptRanges\<close>); every further byte is a continuation byte \<^verbatim>\<open>0x80..0xBF\<close>. Anything
  else decodes as \<^verbatim>\<open>(RuneError, 1)\<close>, the empty string as \<^verbatim>\<open>(RuneError, 0)\<close>.
\<close>

definition accept_lo :: "nat \<Rightarrow> nat" where
  "accept_lo s0 = (if s0 = 0xE0 then 0xA0 else if s0 = 0xF0 then 0x90 else 0x80)"

definition accept_hi :: "nat \<Rightarrow> nat" where
  "accept_hi s0 = (if s0 = 0xED then 0x9F else if s0 = 0xF4 then 0x8F else 0xBF)"

fun DecodeRuneInString :: "string \<Rightarrow> rune \<times> nat" where
  "DecodeRuneInString [] = (RuneError, 0)"
| "DecodeRuneInString (c0 # t) =
    (let s0 = byte c0 in
     if s0 < 0x80 then (s0, 1)
     else if s0 < 0xC2 \<or> 0xF4 < s0 then (RuneError, 1)
     else
       let sz = (if s0 < 0xE0 then 2 else if s0 < 0xF0 then 3 else (4::nat)) in
       if length (c0 # t) < sz then (RuneError, 1)
       else
         let s1 = byte (t ! 0) in
         if s1 < accept_lo s0 \<or> accept_hi s0 < s1 then (RuneError, 1)
         else if sz \<le> 2 then ((s0 mod 0x20) * 0x40 + s1 mod 0x40, 2)
         else
           let s2 = byte (t ! 1) in
           if s2 < 0x80 \<or> 0xBF < s2 then (RuneError, 1)
           else if sz \<le> 3 then
             ((s0 mod 0x10) * 0x1000 + (s1 mod 0x40) * 0x40 + s2 mod 0x40, 3)
           else
             let s3 = byte (t ! 2) in
             if s3 < 0x80 \<or> 0xBF < s3 then (RuneError, 1)
             else ((s0 mod 8) * 0x40000 + (s1 mod 0x40) * 0x1000
                     + (s2 mod 0x40) * 0x40 + s3 mod 0x40, 4))"

definition RuneStart :: "char \<Rightarrow> bool" where
  "RuneStart b = (\<not> (0x80 \<le> byte b \<and> byte b \<le> 0xBF))"

text \<open>
  The backward loop of \<^verbatim>\<open>utf8.DecodeLastRuneInString\<close>:
  \<^verbatim>\<open>for start--; start >= lim; start-- { if RuneStart(s[start]) { break } }\<close>,
  entered here after the first decrement.
\<close>

function scan_back :: "string \<Rightarrow> int \<Rightarrow> int \<Rightarrow> int" where
  "scan_back s lim start =
    (if lim \<le> start then
       (if RuneStart (s ! nat start) then start else scan_back s lim (start - 1))
     else start)"
  by pat_completeness auto
termination
  by (relation "measure (\<lambda>(s, lim, start). nat (start - lim + 1))") auto

declare scan_back.simps [simp del]

definition DecodeLastRuneInString :: "string \<Rightarrow> rune \<times> nat" where
  "DecodeLastRuneInString s =
    (let n = int (length s) in
     if n = 0 then (RuneError, 0)
     else
       let r = byte (s ! nat (n - 1)) in
       if r < RuneSelf then (r, 1)
       else
         let lim = max 0 (n - UTFMax);
             start0 = scan_back s lim (n - 1 - 1);
             start = (if start0 < 0 then 0 else start0);
             d = DecodeRuneInString (drop (nat start) s)
         in if start + int (snd d) \<noteq> n then (RuneError, 1) else d)"

text \<open>\<^verbatim>\<open>unicode.IsSpace\<close>: the Latin-1 cases and the table \<^verbatim>\<open>White_Space\<close>.\<close>

definition IsSpace :: "rune \<Rightarrow> bool" where
  "IsSpace r =
    (if r \<le> 0xFF then r \<in> {0x09, 0x0A, 0x0B, 0x0C, 0x0D, 0x20, 0x85, 0xA0}
     else r = 0x1680 \<or> (0x2000 \<le> r \<and> r \<le> 0x200A) \<or> r = 0x2028 \<or> r = 0x2029
          \<or> r = 0x202F \<or> r = 0x205F \<or> r = 0x3000)"

lemma DecodeRuneInString_width: "s \<noteq> [] \<Longrightarrow> 0 < snd (DecodeRuneInString s)"
  by (cases s) (simp_all add: Let_def)

lemma scan_back_le: "scan_back s lim start \<le> start"
proof (induction s lim start rule: scan_back.induct)
  case (1 s lim start)
  show ?case
  proof (cases "lim \<le> start \<and> \<not> RuneStart (s ! nat start)")
    case True
    then have "scan_back s lim start = scan_back s lim (start - 1)"
      by (subst scan_back.simps) simp
    moreover from True 1 have "scan_back s lim (start - 1) \<le> start - 1" by simp
    ultimately show ?thesis by simp
  next
    case False
    then show ?thesis by (subst scan_back.simps) auto
  qed
qed

lemma DecodeLastRuneInString_width: "s \<noteq> [] \<Longrightarrow> 0 < snd (DecodeLastRuneInString s)"
proof -
  assume ne: "s \<noteq> []"
  define n where "n = int (length s)"
  define start0 where "start0 = scan_back s (max 0 (n - UTFMax)) (n - 1 - 1)"
  define start where "start = (if start0 < 0 then 0 else start0)"
  from ne have n: "0 < n" by (simp add: n_def)
  have "start0 \<le> n - 2" using scan_back_le [of s "max 0 (n - UTFMax)" "n - 1 - 1"]
    by (simp add: start0_def)
  with n have lt: "start < n" by (simp add: start_def)
  have "start + int (snd (DecodeRuneInString (drop (nat start) s))) = n
        \<Longrightarrow> 0 < snd (DecodeRuneInString (drop (nat start) s))"
    using lt by (cases "snd (DecodeRuneInString (drop (nat start) s))") auto
  then show ?thesis
    using n unfolding DecodeLastRuneInString_def Let_def n_def [symmetric]
      start0_def [symmetric] start_def [symmetric]
    by auto
qed

text \<open>
  \<^verbatim>\<open>strings.indexFunc\<close> ranges over the runes of \<^verbatim>\<open>s\<close> from the front and
  \<^verbatim>\<open>strings.lastIndexFunc\<close> from the back; the last argument is the loop index, and
  \<open>None\<close> is the library's \<^verbatim>\<open>-1\<close>. The backward loop starts at \<^verbatim>\<open>len(s)\<close>, so
  its index never exceeds the length.
\<close>

function indexFunc :: "string \<Rightarrow> (rune \<Rightarrow> bool) \<Rightarrow> bool \<Rightarrow> nat \<Rightarrow> nat option" where
  "indexFunc s f truth i =
    (if i < length s then
       (if f (fst (DecodeRuneInString (drop i s))) = truth then Some i
        else indexFunc s f truth (i + snd (DecodeRuneInString (drop i s))))
     else None)"
  by pat_completeness auto
termination
proof (relation "measure (\<lambda>(s, f, truth, i). length s - i)")
  show "wf (measure (\<lambda>(s, f, truth, i). length s - i))" by simp
next
  fix s :: string and f :: "rune \<Rightarrow> bool" and truth :: bool and i :: nat
  assume "i < length s"
  then have "0 < snd (DecodeRuneInString (drop i s))"
    by (intro DecodeRuneInString_width) simp
  with \<open>i < length s\<close>
  show "((s, f, truth, i + snd (DecodeRuneInString (drop i s))), (s, f, truth, i))
          \<in> measure (\<lambda>(s, f, truth, i). length s - i)"
    by simp
qed

declare indexFunc.simps [simp del]

function lastIndexFunc :: "string \<Rightarrow> (rune \<Rightarrow> bool) \<Rightarrow> bool \<Rightarrow> nat \<Rightarrow> nat option" where
  "lastIndexFunc s f truth i =
    (if 0 < i \<and> i \<le> length s then
       (if f (fst (DecodeLastRuneInString (take i s))) = truth
        then Some (i - snd (DecodeLastRuneInString (take i s)))
        else lastIndexFunc s f truth (i - snd (DecodeLastRuneInString (take i s))))
     else None)"
  by pat_completeness auto
termination
proof (relation "measure (\<lambda>(s, f, truth, i). i)")
  show "wf (measure (\<lambda>(s, f, truth, i). i))" by simp
next
  fix s :: string and f :: "rune \<Rightarrow> bool" and truth :: bool and i :: nat
  assume "0 < i \<and> i \<le> length s"
  then have "0 < snd (DecodeLastRuneInString (take i s))"
    by (intro DecodeLastRuneInString_width) auto
  with \<open>0 < i \<and> i \<le> length s\<close>
  show "((s, f, truth, i - snd (DecodeLastRuneInString (take i s))), (s, f, truth, i))
          \<in> measure (\<lambda>(s, f, truth, i). i)"
    by simp
qed

declare lastIndexFunc.simps [simp del]

definition TrimLeftFunc :: "string \<Rightarrow> (rune \<Rightarrow> bool) \<Rightarrow> string" where
  "TrimLeftFunc s f = (case indexFunc s f False 0 of None \<Rightarrow> [] | Some i \<Rightarrow> drop i s)"

definition TrimRightFunc :: "string \<Rightarrow> (rune \<Rightarrow> bool) \<Rightarrow> string" where
  "TrimRightFunc s f =
    (case lastIndexFunc s f False (length s) of
       None \<Rightarrow> take 0 s
     | Some i \<Rightarrow>
         if RuneSelf \<le> byte (s ! i) then take (i + snd (DecodeRuneInString (drop i s))) s
         else take (i + 1) s)"

definition TrimFunc :: "string \<Rightarrow> (rune \<Rightarrow> bool) \<Rightarrow> string" where
  "TrimFunc s f = TrimRightFunc (TrimLeftFunc s f) f"

text \<open>
  \<^verbatim>\<open>strings.TrimSpace\<close> removes all leading and trailing white space, as defined by
  Unicode: it is \<^verbatim>\<open>TrimFunc(s, unicode.IsSpace)\<close>.
\<close>

definition TrimSpace :: "string \<Rightarrow> string" where
  "TrimSpace s = TrimFunc s IsSpace"

definition HasPrefix :: "string \<Rightarrow> string \<Rightarrow> bool" where
  "HasPrefix s pre = (length pre \<le> length s \<and> take (length pre) s = pre)"

definition TrimPrefix :: "string \<Rightarrow> string \<Rightarrow> string" where
  "TrimPrefix s pre = (if HasPrefix s pre then drop (length pre) s else s)"

text \<open>
  \<^verbatim>\<open>strings.Split(s, sep)\<close> for a separator of one byte, the only use in the plugin
  (\<^verbatim>\<open>strings.Split(input, "/")\<close>): the pieces of \<^verbatim>\<open>s\<close> between the occurrences of the
  separator, so one piece more than there are separators; the empty string gives one
  empty piece.
\<close>

fun Split :: "string \<Rightarrow> char \<Rightarrow> string list" where
  "Split [] sep = [[]]"
| "Split (c # cs) sep =
    (if c = sep then [] # Split cs sep
     else (case Split cs sep of [] \<Rightarrow> [[c]] | piece # pieces \<Rightarrow> (c # piece) # pieces))"

section \<open>The command parser\<close>

text \<open>
  \<^verbatim>\<open>splitAndValidateInput\<close> of \<^verbatim>\<open>server/plugin.go\<close>. The Go function returns
  \<^verbatim>\<open>([]string, error)\<close>; the error is \<open>Inl\<close> with its text.
\<close>

definition splitAndValidateInput :: "string \<Rightarrow> string + string list" where
  "splitAndValidateInput message =
    (let input = TrimSpace (TrimPrefix message ''s/'') in
     if input = [] then Inl ''No input''
     else
       let strs = Split input (CHR ''/'') in
       if length strs < 2 \<or> length (strs ! 0) < 1 \<or> length (strs ! 1) < 1
       then Inl ''Bad user input''
       else Inr strs)"

section \<open>The Go library and the clock\<close>

text \<open>
  The error codes of \<^verbatim>\<open>regexp/syntax\<close>, and the two ways in which the program can
  panic: \<^verbatim>\<open>regexp.MustCompile\<close> on a pattern that does not compile, and the
  dereference of a nil pointer.
\<close>

datatype regexp_error =
  ErrInternalError
| ErrInvalidCharClass
| ErrInvalidCharRange
| ErrInvalidEscape
| ErrInvalidNamedCapture
| ErrInvalidPerlOp
| ErrInvalidRepeatOp
| ErrInvalidRepeatSize
| ErrInvalidUTF8
| ErrMissingBracket
| ErrMissingParen
| ErrMissingRepeatArgument
| ErrTrailingBackslash
| ErrUnexpectedParen
| ErrNestingDepth
| ErrLarge

datatype panic =
  Regexp_Compile regexp_error
| Nil_dereference

datatype 'a run =
  Returns 'a
| Panics panic

text \<open>
  What the plugin takes from outside its own source and the host, and what this theory
  does not write out, is a parameter of the model:
  \<^item> the clock behind \<^verbatim>\<open>model.GetMillis()\<close>;
  \<^item> \<^verbatim>\<open>sort.Slice\<close>, which sorts by the given \<^verbatim>\<open>less\<close> but is not stable, so that the
    order of posts with equal time stamps is whatever the implementation yields;
  \<^item> the Unicode tables \<^verbatim>\<open>unicode.Letter\<close> and \<^verbatim>\<open>unicode.Digit\<close>, consulted for the
    characters beyond Latin-1;
  \<^item> \<^verbatim>\<open>regexp.Compile\<close> on the patterns outside the fragment of the pattern syntax
    that is written out below: for such a pattern, either the error that \<^verbatim>\<open>Compile\<close>
    returns, or what \<^verbatim>\<open>ReplaceAllString\<close> of the compiled expression returns for a text
    and a replacement.
\<close>

record Runtime =
  GetMillis :: int
  sort_Slice :: "(string \<Rightarrow> string \<Rightarrow> bool) \<Rightarrow> string list \<Rightarrow> string list"
  Letter :: "rune \<Rightarrow> bool"
  Digit :: "rune \<Rightarrow> bool"
  regexp_Compile :: "string \<Rightarrow> regexp_error + (string \<Rightarrow> string \<Rightarrow> string)"

text \<open>
  \<^verbatim>\<open>unicode.IsLetter\<close> and \<^verbatim>\<open>unicode.IsDigit\<close>: up to \<^verbatim>\<open>MaxLatin1\<close> the library decides
  by its table of properties (the letters of Latin-1) and by the range \<^verbatim>\<open>'0'..'9'\<close>,
  beyond it by the tables.
\<close>

definition MaxLatin1 :: rune where
  "MaxLatin1 = 0xFF"

definition IsLetter :: "Runtime \<Rightarrow> rune \<Rightarrow> bool" where
  "IsLetter rt r =
    (if r \<le> MaxLatin1 then
       (0x41 \<le> r \<and> r \<le> 0x5A) \<or> (0x61 \<le> r \<and> r \<le> 0x7A) \<or> r = 0xAA \<or> r = 0xB5 \<or> r = 0xBA
       \<or> (0xC0 \<le> r \<and> r \<le> 0xD6) \<or> (0xD8 \<le> r \<and> r \<le> 0xF6) \<or> 0xF8 \<le> r
     else Letter rt r)"

definition IsDigit :: "Runtime \<Rightarrow> rune \<Rightarrow> bool" where
  "IsDigit rt r = (if r \<le> MaxLatin1 then 0x30 \<le> r \<and> r \<le> 0x39 else Digit rt r)"

section \<open>The regexp package\<close>

text \<open>
  \<^verbatim>\<open>replace\<close> compiles a pattern with \<^verbatim>\<open>regexp.MustCompile\<close> and substitutes with
  \<^verbatim>\<open>ReplaceAllString\<close>. The package is Go's standard library. Its parser, its matcher
  and its replacement loop are written out here for a fragment of the pattern syntax
  (Perl flags, as \<^verbatim>\<open>Compile\<close> sets them):
  \<^item> literal ASCII characters, and \<^verbatim>\<open>\\<close> before an ASCII character that is not a
    letter or digit;
  \<^item> \<^verbatim>\<open>.\<close> (any character but newline), \<^verbatim>\<open>\b\<close> and \<^verbatim>\<open>\B\<close> (ASCII word boundary and
    its negation);
  \<^item> capturing groups \<^verbatim>\<open>( )\<close> and alternation \<^verbatim>\<open>|\<close>;
  \<^item> the greedy operators \<^verbatim>\<open>*\<close>, \<^verbatim>\<open>+\<close>, \<^verbatim>\<open>?\<close> on an operand that cannot match the
    empty string.

  Every other pattern (character classes, counted repetition, anchors, non-greedy
  operators, flags and named groups, escapes of letters and digits, non-ASCII bytes,
  repetition of an operand that can match the empty string) is outside the fragment:
  what the package does with it is the parameter \<open>regexp_Compile\<close> of the runtime, so
  that the program runs on from there whatever the pattern is. The package is modelled
  as the Go releases of the plugin's time have it; the limits on the size and on the
  nesting depth of a pattern that later releases check (\<^verbatim>\<open>ErrLarge\<close>,
  \<^verbatim>\<open>ErrNestingDepth\<close>) are not part of the fragment's parser.
\<close>

text \<open>The syntax tree, with the operator names of \<^verbatim>\<open>regexp/syntax\<close>.\<close>

datatype regex =
  Literal char
| AnyCharNotNL
| WordBoundary
| NoWordBoundary
| EmptyMatch
| Concat regex regex
| Alternate regex regex
| Star regex
| Plus regex
| Quest regex
| Capture nat regex

text \<open>
  The parser returns the expression with the number of its capturing groups, or an
  error, or finds the pattern outside the fragment.
\<close>

datatype parse_result =
  Parsed regex nat
| Parse_error regexp_error
| Outside_fragment

definition backslash :: char where
  "backslash = CHR 0x5C"

definition isalnum :: "char \<Rightarrow> bool" where
  "isalnum c =
    ((0x30 \<le> byte c \<and> byte c \<le> 0x39) \<or> (0x41 \<le> byte c \<and> byte c \<le> 0x5A)
      \<or> (0x61 \<le> byte c \<and> byte c \<le> 0x7A))"

fun nullable :: "regex \<Rightarrow> bool" where
  "nullable (Literal c) = False"
| "nullable AnyCharNotNL = False"
| "nullable WordBoundary = True"
| "nullable NoWordBoundary = True"
| "nullable EmptyMatch = True"
| "nullable (Concat a b) = (nullable a \<and> nullable b)"
| "nullable (Alternate a b) = (nullable a \<or> nullable b)"
| "nullable (Star a) = True"
| "nullable (Plus a) = nullable a"
| "nullable (Quest a) = True"
| "nullable (Capture k a) = nullable a"

text \<open>
  The parser's \<^verbatim>\<open>concat\<close> and \<^verbatim>\<open>alternate\<close> collapse what is on its stack above the
  last \<^verbatim>\<open>(\<close> or \<^verbatim>\<open>|\<close>: no operand gives \<^verbatim>\<open>OpEmptyMatch\<close>.
\<close>

fun concat_op :: "regex list \<Rightarrow> regex" where
  "concat_op [] = EmptyMatch"
| "concat_op [r] = r"
| "concat_op (r # rs) = Concat r (concat_op rs)"

fun alternate_op :: "regex list \<Rightarrow> regex \<Rightarrow> regex" where
  "alternate_op [] r = r"
| "alternate_op (a # as) r = Alternate a (alternate_op as r)"

definition repeat_op :: "char \<Rightarrow> regex \<Rightarrow> regex" where
  "repeat_op c r = (if c = CHR ''*'' then Star r else if c = CHR ''+'' then Plus r else Quest r)"

text \<open>
  The main loop of \<^verbatim>\<open>syntax.Parse\<close> reads one pattern character (or escape) at a
  time. Its state is the number of capturing groups opened so far, the stack of
  enclosing groups (each with its index, its finished alternatives and the operands
  before it), the finished alternatives and the operands of the current group, and
  whether the previous token was a repetition operator (the parser's \<^verbatim>\<open>lastRepeat\<close>).
  \<open>parse_token\<close> is the body of the loop, the \<^verbatim>\<open>switch\<close> on the next character \<open>c\<close>
  with the rest \<open>t\<close> of the pattern behind it: it stops with an error, stops at the
  edge of the fragment, or goes on with the rest of the pattern and the new state.
\<close>

type_synonym parse_stack = "(nat \<times> regex list \<times> regex list) list"

datatype parse_step =
  Next string nat parse_stack "regex list" "regex list" bool
| Stop parse_result

definition parse_token ::
  "char \<Rightarrow> string \<Rightarrow> nat \<Rightarrow> parse_stack \<Rightarrow> regex list \<Rightarrow> regex list \<Rightarrow> bool \<Rightarrow> parse_step" where
  "parse_token c t ncap stack alts ops lastRepeat =
    (if c = CHR ''('' then
       (if t \<noteq> [] \<and> hd t = CHR ''?'' then Stop Outside_fragment
        else Next t (ncap + 1) ((ncap + 1, alts, ops) # stack) [] [] False)
     else if c = CHR ''|'' then
       Next t ncap stack (alts @ [concat_op ops]) [] False
     else if c = CHR '')'' then
       (case stack of
          [] \<Rightarrow> Stop (Parse_error ErrUnexpectedParen)
        | (k, alts', ops') # stack' \<Rightarrow>
            Next t ncap stack' alts'
              (ops' @ [Capture k (alternate_op alts (concat_op ops))]) False)
     else if c = CHR ''*'' \<or> c = CHR ''+'' \<or> c = CHR ''?'' then
       (if lastRepeat then Stop (Parse_error ErrInvalidRepeatOp)
        else if ops = [] then Stop (Parse_error ErrMissingRepeatArgument)
        else if t \<noteq> [] \<and> hd t = CHR ''?'' then Stop Outside_fragment
        else if nullable (last ops) then Stop Outside_fragment
        else Next t ncap stack alts (butlast ops @ [repeat_op c (last ops)]) True)
     else if c = CHR ''.'' then
       Next t ncap stack alts (ops @ [AnyCharNotNL]) False
     else if c = backslash then
       (case t of
          [] \<Rightarrow> Stop (Parse_error ErrTrailingBackslash)
        | e # t' \<Rightarrow>
            if e = CHR ''b'' then Next t' ncap stack alts (ops @ [WordBoundary]) False
            else if e = CHR ''B'' then Next t' ncap stack alts (ops @ [NoWordBoundary]) False
            else if isalnum e \<or> RuneSelf \<le> byte e then Stop Outside_fragment
            else Next t' ncap stack alts (ops @ [Literal e]) False)
     else if c = CHR ''['' \<or> c = CHR ''{'' \<or> c = CHR ''^'' \<or> c = CHR ''$'' then
       Stop Outside_fragment
     else Next t ncap stack alts (ops @ [Literal c]) False)"

lemma parse_token_shorter:
  "parse_token c t ncap stack alts ops lastRepeat = Next t' ncap' stack' alts' ops' lastRepeat'
    \<Longrightarrow> length t' \<le> length t"
  unfolding parse_token_def
  by (simp split: if_splits list.splits prod.splits)

text \<open>
  At the end of the pattern a group that is still open is the error
  \<^verbatim>\<open>missing closing )\<close>; otherwise what was read is collapsed into one expression.
\<close>

function parse_loop ::
  "string \<Rightarrow> nat \<Rightarrow> parse_stack \<Rightarrow> regex list \<Rightarrow> regex list \<Rightarrow> bool \<Rightarrow> parse_result" where
  "parse_loop [] ncap stack alts ops lastRepeat =
    (if stack = [] then Parsed (alternate_op alts (concat_op ops)) ncap
     else Parse_error ErrMissingParen)"
| "parse_loop (c # t) ncap stack alts ops lastRepeat =
    (case parse_token c t ncap stack alts ops lastRepeat of
       Stop r \<Rightarrow> r
     | Next t' ncap' stack' alts' ops' lastRepeat' \<Rightarrow>
         parse_loop t' ncap' stack' alts' ops' lastRepeat')"
  by pat_completeness auto
termination
proof (relation "measure (\<lambda>(s, ncap, stack, alts, ops, lastRepeat). length s)")
  show "wf (measure (\<lambda>(s, ncap, stack, alts, ops, lastRepeat). length s))" by simp
next
  fix c t ncap stack alts ops lastRepeat x1 x2 x3 x4 x5 x6
  assume "parse_token c t ncap stack alts ops lastRepeat = Next x1 x2 x3 x4 x5 x6"
  then have "length x1 \<le> length t" by (rule parse_token_shorter)
  then show "((x1, x2, x3, x4, x5, x6), (c # t, ncap, stack, alts, ops, lastRepeat))
               \<in> measure (\<lambda>(s, ncap, stack, alts, ops, lastRepeat). length s)"
    by simp
qed

definition Parse :: "string \<Rightarrow> parse_result" where
  "Parse s =
    (if \<exists>c \<in> set s. RuneSelf \<le> byte c then Outside_fragment
     else parse_loop s 0 [] [] [] False)"

text \<open>
  A compiled \<^verbatim>\<open>*Regexp\<close> of the fragment is the syntax tree and the number of its
  capturing groups (\<^verbatim>\<open>numSubexp\<close>); one from outside the fragment is known by what its
  \<^verbatim>\<open>ReplaceAllString\<close> returns. \<^verbatim>\<open>MustCompile\<close> panics where \<^verbatim>\<open>Compile\<close> returns an
  error.
\<close>

datatype Regexp =
  Regexp regex nat
| Other_Regexp "string \<Rightarrow> string \<Rightarrow> string"

definition MustCompile :: "Runtime \<Rightarrow> string \<Rightarrow> Regexp run" where
  "MustCompile rt str =
    (case Parse str of
       Parsed re n \<Rightarrow> Returns (Regexp re n)
     | Parse_error e \<Rightarrow> Panics (Regexp_Compile e)
     | Outside_fragment \<Rightarrow>
         (case regexp_Compile rt str of
            Inl e \<Rightarrow> Panics (Regexp_Compile e)
          | Inr replaceAllString \<Rightarrow> Returns (Other_Regexp replaceAllString)))"

subsection \<open>Matching\<close>

text \<open>
  \<^verbatim>\<open>syntax.IsWordChar\<close> and the word-boundary test of \<^verbatim>\<open>syntax.EmptyOpContext\<close>: the
  byte before position \<open>i\<close> and the byte at \<open>i\<close> differ in being ASCII word characters;
  outside the text, and for any byte of a non-ASCII character, there is no word
  character.
\<close>

definition IsWordChar :: "char \<Rightarrow> bool" where
  "IsWordChar c = (isalnum c \<or> c = CHR ''_'')"

definition word_at :: "string \<Rightarrow> nat \<Rightarrow> bool" where
  "word_at s i = (i < length s \<and> IsWordChar (s ! i))"

definition word_boundary :: "string \<Rightarrow> nat \<Rightarrow> bool" where
  "word_boundary s i = ((0 < i \<and> word_at s (i - 1)) \<noteq> word_at s i)"

type_synonym caps = "(nat \<times> nat \<times> nat) list"

fun weight :: "regex \<Rightarrow> nat" where
  "weight (Concat a b) = weight a + weight b + 1"
| "weight (Alternate a b) = weight a + weight b + 1"
| "weight (Star a) = weight a + 1"
| "weight (Plus a) = weight a + 2"
| "weight (Quest a) = weight a + 1"
| "weight (Capture k a) = weight a + 1"
| "weight r = 0"

text \<open>
  The package finds the leftmost match and, among the matches that start there, the
  one a backtracking search meets first (leftmost-first, as in Perl). \<open>ends s re i cs\<close>
  lists, in that order of preference, the positions where a match of \<open>re\<close> that starts
  at byte \<open>i\<close> of \<open>s\<close> can end, each with the groups captured on the way (the newest
  entry for a group first). A greedy operator prefers one more iteration; each
  iteration consumes input, since its operand cannot match the empty string.
\<close>

function ends :: "string \<Rightarrow> regex \<Rightarrow> nat \<Rightarrow> caps \<Rightarrow> (nat \<times> caps) list" where
  "ends s (Literal c) i cs = (if i < length s \<and> s ! i = c then [(i + 1, cs)] else [])"
| "ends s AnyCharNotNL i cs =
    (if i < length s \<and> s ! i \<noteq> CHR 0x0A
     then [(i + snd (DecodeRuneInString (drop i s)), cs)] else [])"
| "ends s WordBoundary i cs = (if word_boundary s i then [(i, cs)] else [])"
| "ends s NoWordBoundary i cs = (if word_boundary s i then [] else [(i, cs)])"
| "ends s EmptyMatch i cs = [(i, cs)]"
| "ends s (Concat a b) i cs = concat (map (\<lambda>(j, c). ends s b j c) (ends s a i cs))"
| "ends s (Alternate a b) i cs = ends s a i cs @ ends s b i cs"
| "ends s (Capture k a) i cs = map (\<lambda>(j, c). (j, (k, i, j) # c)) (ends s a i cs)"
| "ends s (Quest a) i cs = ends s a i cs @ [(i, cs)]"
| "ends s (Plus a) i cs = concat (map (\<lambda>(j, c). ends s (Star a) j c) (ends s a i cs))"
| "ends s (Star a) i cs =
    concat (map (\<lambda>(j, c). if i < j \<and> j \<le> length s then ends s (Star a) j c else [])
                (ends s a i cs))
    @ [(i, cs)]"
  by pat_completeness auto
termination
  by (relation "inv_image (less_than <*lex*> less_than)
                 (\<lambda>(s, re, i, cs). (weight re, Suc (length s) - i))") auto

declare ends.simps [simp del]
lemma ends_ge: "(j, c) \<in> set (ends s re i cs) \<Longrightarrow> i \<le> j"
proof (induction s re i cs arbitrary: j c rule: ends.induct)
  case (6 s a b i cs)
  from "6.prems" obtain j' c' where a: "(j', c') \<in> set (ends s a i cs)"
      and b: "(j, c) \<in> set (ends s b j' c')"
    by (auto simp: ends.simps(6))
  from "6.IH"(1) [OF a] "6.IH"(2) [OF a refl b] show ?case by simp
next
  case (10 s a i cs)
  from "10.prems" obtain j' c' where a: "(j', c') \<in> set (ends s a i cs)"
      and b: "(j, c) \<in> set (ends s (Star a) j' c')"
    by (auto simp: ends.simps(10))
  from "10.IH"(1) [OF a] "10.IH"(2) [OF a refl b] show ?case by simp
next
  case (11 s a i cs)
  show ?case
  proof (cases "(j, c) = (i, cs)")
    case True
    then show ?thesis by simp
  next
    case False
    from "11.prems"
    have "(j, c) \<in> set (concat (map (\<lambda>(j, c). if i < j \<and> j \<le> length s
                                               then ends s (Star a) j c else [])
                                    (ends s a i cs)) @ [(i, cs)])"
      by (subst (asm) ends.simps(11))
    with False obtain j' c' where a: "(j', c') \<in> set (ends s a i cs)"
        and g: "i < j' \<and> j' \<le> length s" and b: "(j, c) \<in> set (ends s (Star a) j' c')"
      by (auto split: if_splits)
    from "11.IH"(2) [OF a refl g b] g show ?thesis by simp
  qed
next
  case (1 s c i cs) then show ?case by (simp add: ends.simps(1) split: if_splits)
next
  case (2 s i cs) then show ?case by (simp add: ends.simps(2) split: if_splits)
next
  case (3 s i cs) then show ?case by (simp add: ends.simps(3) split: if_splits)
next
  case (4 s i cs) then show ?case by (simp add: ends.simps(4) split: if_splits)
next
  case (5 s i cs) then show ?case by (simp add: ends.simps(5))
next
  case (7 s a b i cs) then show ?case by (auto simp: ends.simps(7))
next
  case (8 s k a i cs) then show ?case by (auto simp: ends.simps(8))
next
  case (9 s a i cs) then show ?case by (auto simp: ends.simps(9))
qed

text \<open>
  The unanchored search of \<^verbatim>\<open>doExecute\<close> from position \<open>pos\<close>: the first start, going
  forward one character at a time, from which the pattern matches; the result is the
  match \<^verbatim>\<open>[a0, a1]\<close> with its groups.
\<close>

function find_match :: "string \<Rightarrow> regex \<Rightarrow> nat \<Rightarrow> (nat \<times> nat \<times> caps) option" where
  "find_match s re pos =
    (case ends s re pos [] of
       (j, cs) # _ \<Rightarrow> Some (pos, j, cs)
     | [] \<Rightarrow>
         if pos < length s then find_match s re (pos + snd (DecodeRuneInString (drop pos s)))
         else None)"
  by pat_completeness auto
termination
proof (relation "measure (\<lambda>(s, re, pos). length s - pos)")
  show "wf (measure (\<lambda>(s, re, pos). length s - pos))" by simp
next
  fix s :: string and re :: regex and pos :: nat
  assume "pos < length s"
  then have "0 < snd (DecodeRuneInString (drop pos s))"
    by (intro DecodeRuneInString_width) simp
  with \<open>pos < length s\<close>
  show "((s, re, pos + snd (DecodeRuneInString (drop pos s))), (s, re, pos))
          \<in> measure (\<lambda>(s, re, pos). length s - pos)"
    by simp
qed

declare find_match.simps [simp del]

lemma find_match_ge: "find_match s re pos = Some (a0, a1, cs) \<Longrightarrow> pos \<le> a0 \<and> a0 \<le> a1"
proof (induction s re pos rule: find_match.induct)
  case (1 s re pos)
  note eq = find_match.simps [of s re pos]
  show ?case
  proof (cases "ends s re pos []")
    case Nil
    with "1.prems" have lt: "pos < length s"
      and next_match:
        "find_match s re (pos + snd (DecodeRuneInString (drop pos s))) = Some (a0, a1, cs)"
      by (simp_all add: eq split: if_splits)
    from "1.IH" [OF Nil lt next_match] show ?thesis by simp
  next
    case (Cons x xs)
    obtain j c where x: "x = (j, c)" by (cases x)
    with Cons "1.prems" have "a0 = pos" and "a1 = j"
      by (simp_all add: eq)
    moreover from Cons x have "(j, c) \<in> set (ends s re pos [])" by simp
    then have "pos \<le> j" by (rule ends_ge)
    ultimately show ?thesis by simp
  qed
qed

subsection \<open>Replacement\<close>

text \<open>The Go slice expression \<^verbatim>\<open>s[lo:hi]\<close>, used where \<open>lo \<le> hi \<le> length s\<close>.\<close>

definition slice :: "string \<Rightarrow> nat \<Rightarrow> nat \<Rightarrow> string" where
  "slice s lo hi = take (hi - lo) (drop lo s)"

text \<open>
  \<open>extract_name\<close> is \<^verbatim>\<open>extract\<close> of \<^verbatim>\<open>regexp.go\<close>; it reads the name after a \<^verbatim>\<open>$\<close> of the
  replacement template: the longest run of letters, digits and underscores, possibly
  in braces. \<open>name_scan\<close> is its loop over the characters of the name, with the loop
  index \<open>i\<close>. The number of a name is \<open>-1\<close> unless the name is a decimal number without a
  leading zero.
\<close>

function name_scan :: "Runtime \<Rightarrow> string \<Rightarrow> nat \<Rightarrow> nat" where
  "name_scan rt str i =
    (if i < length str then
       (if \<not> IsLetter rt (fst (DecodeRuneInString (drop i str)))
           \<and> \<not> IsDigit rt (fst (DecodeRuneInString (drop i str)))
           \<and> fst (DecodeRuneInString (drop i str)) \<noteq> 0x5F
        then i
        else name_scan rt str (i + snd (DecodeRuneInString (drop i str))))
     else i)"
  by pat_completeness auto
termination
proof (relation "measure (\<lambda>(rt, str, i). length str - i)")
  show "wf (measure (\<lambda>(rt :: Runtime, str :: string, i). length str - i))" by simp
next
  fix rt :: Runtime and str :: string and i :: nat
  assume "i < length str"
  then have "0 < snd (DecodeRuneInString (drop i str))"
    by (intro DecodeRuneInString_width) simp
  with \<open>i < length str\<close>
  show "((rt, str, i + snd (DecodeRuneInString (drop i str))), (rt, str, i))
          \<in> measure (\<lambda>(rt, str, i). length str - i)"
    by simp
qed

declare name_scan.simps [simp del]

fun num_loop :: "string \<Rightarrow> int \<Rightarrow> int" where
  "num_loop [] num = num"
| "num_loop (c # t) num =
    (if byte c < 0x30 \<or> 0x39 < byte c \<or> 100000000 \<le> num then - 1
     else num_loop t (num * 10 + int (byte c) - 0x30))"

definition extract_name :: "Runtime \<Rightarrow> string \<Rightarrow> (string \<times> int \<times> string) option" where
  "extract_name rt str =
    (if str = [] then None
     else
       let brace = (hd str = CHR ''{'');
           str1 = (if brace then tl str else str);
           i = name_scan rt str1 0
       in if i = 0 then None
          else if brace \<and> (length str1 \<le> i \<or> str1 ! i \<noteq> CHR ''}'') then None
          else
            let name = take i str1;
                num = (if hd name = CHR ''0'' \<and> 1 < length name then - 1
                       else num_loop name 0)
            in Some (name, num, drop (if brace then i + 1 else i) str1))"

lemma extract_name_Nil [simp]: "extract_name rt [] = None"
  by (simp add: extract_name_def)

lemma extract_rest: "extract_name rt str = Some (name, num, rest) \<Longrightarrow> length rest \<le> length str"
  unfolding extract_name_def
  by (auto simp: Let_def split: if_splits)

text \<open>
  The text a numbered group contributes: group 0 is the whole match \<^verbatim>\<open>[a0, a1]\<close>, a
  group that took no part in the match or that the pattern does not have contributes
  nothing. A name that is not a number refers to a named group, which no pattern of
  the fragment has.
\<close>

definition group_text :: "nat \<Rightarrow> string \<Rightarrow> nat \<times> nat \<times> caps \<Rightarrow> int \<Rightarrow> string" where
  "group_text numSubexp src m num =
    (case m of (a0, a1, cs) \<Rightarrow>
       if num < 0 \<or> numSubexp < nat num then []
       else if num = 0 then slice src a0 a1
       else (case map_of cs (nat num) of None \<Rightarrow> [] | Some (b, e) \<Rightarrow> slice src b e))"

text \<open>
  \<^verbatim>\<open>Regexp.expand\<close>: the template with \<^verbatim>\<open>$$\<close> as a dollar sign, \<^verbatim>\<open>$name\<close> and
  \<^verbatim>\<open>${name}\<close> as the text of a group, and any other \<^verbatim>\<open>$\<close> as itself.
\<close>

function expand :: "Runtime \<Rightarrow> nat \<Rightarrow> string \<Rightarrow> string \<Rightarrow> nat \<times> nat \<times> caps \<Rightarrow> string" where
  "expand rt numSubexp [] src m = []"
| "expand rt numSubexp (c # t) src m =
    (if c \<noteq> CHR ''$'' then c # expand rt numSubexp t src m
     else if t \<noteq> [] \<and> hd t = CHR ''$'' then CHR ''$'' # expand rt numSubexp (tl t) src m
     else
       (case extract_name rt t of
          None \<Rightarrow> CHR ''$'' # expand rt numSubexp t src m
        | Some (name, num, rest) \<Rightarrow>
            group_text numSubexp src m num @ expand rt numSubexp rest src m))"
  by pat_completeness auto
termination
proof (relation "measure (\<lambda>(rt, numSubexp, template, src, m). length template)")
  show "wf (measure (\<lambda>(rt :: Runtime, numSubexp :: nat, template :: string, src :: string,
                        m :: nat \<times> nat \<times> caps). length template))"
    by simp
next
  fix rt :: Runtime and numSubexp :: nat and c :: char and t src :: string
    and m :: "nat \<times> nat \<times> caps" and x2 x y xa ya
  assume "extract_name rt t = Some x2" and "(x, y) = x2" and "(xa, ya) = y"
  then have "extract_name rt t = Some (x, xa, ya)" by simp
  then have "length ya \<le> length t" by (rule extract_rest)
  then show "((rt, numSubexp, ya, src, m), (rt, numSubexp, c # t, src, m))
               \<in> measure (\<lambda>(rt, numSubexp, template, src, m). length template)"
    by simp
qed (auto simp: less_Suc_eq_le)

text \<open>
  The loop of \<^verbatim>\<open>Regexp.replaceAll\<close>, with the names of the Go source. A match of the
  empty string right after another match gets no replacement; the search always
  advances by at least one character.
\<close>

function replaceAll ::
  "string \<Rightarrow> regex \<Rightarrow> (nat \<times> nat \<times> caps \<Rightarrow> string) \<Rightarrow> nat \<Rightarrow> nat \<Rightarrow> string \<Rightarrow> string" where
  "replaceAll src re repl searchPos lastMatchEnd buf =
    (if searchPos \<le> length src then
       (case find_match src re searchPos of
          None \<Rightarrow> buf @ drop lastMatchEnd src
        | Some (a0, a1, cs) \<Rightarrow>
            replaceAll src re repl
              (if a1 < searchPos + snd (DecodeRuneInString (drop searchPos src))
               then searchPos + snd (DecodeRuneInString (drop searchPos src))
               else if a1 < searchPos + 1 then searchPos + 1
               else a1)
              a1
              (if lastMatchEnd < a1 \<or> a0 = 0
               then buf @ slice src lastMatchEnd a0 @ repl (a0, a1, cs)
               else buf @ slice src lastMatchEnd a0))
     else buf @ drop lastMatchEnd src)"
  by pat_completeness auto
termination
proof (relation "measure (\<lambda>(src, re, repl, searchPos, lastMatchEnd, buf).
                            Suc (length src) - searchPos)")
  show "wf (measure (\<lambda>(src, re, repl, searchPos, lastMatchEnd, buf :: string).
                       Suc (length (src :: string)) - searchPos))"
    by simp
next
  fix src re and repl :: "nat \<times> nat \<times> caps \<Rightarrow> string"
    and searchPos lastMatchEnd :: nat and buf :: string and x2 a0 y a1 cs
  assume le: "searchPos \<le> length src"
    and "find_match src re searchPos = Some x2" and "(a0, y) = x2" and "(a1, cs) = y"
  then have "find_match src re searchPos = Some (a0, a1, cs)" by simp
  then have ge: "searchPos \<le> a1" using find_match_ge by fastforce
  define next_pos where "next_pos =
    (if a1 < searchPos + snd (DecodeRuneInString (drop searchPos src))
     then searchPos + snd (DecodeRuneInString (drop searchPos src))
     else if a1 < searchPos + 1 then searchPos + 1 else a1)"
  from ge have "searchPos < next_pos" by (simp add: next_pos_def)
  with le
  show "((src, re, repl, next_pos, a1,
           if lastMatchEnd < a1 \<or> a0 = 0
           then buf @ slice src lastMatchEnd a0 @ repl (a0, a1, cs)
           else buf @ slice src lastMatchEnd a0),
         (src, re, repl, searchPos, lastMatchEnd, buf))
          \<in> measure (\<lambda>(src, re, repl, searchPos, lastMatchEnd, buf).
                         Suc (length src) - searchPos)"
    unfolding next_pos_def by simp
qed

declare replaceAll.simps [simp del]

text \<open>
  \<^verbatim>\<open>ReplaceAllString\<close> returns a copy of \<^verbatim>\<open>src\<close> in which the matches of the expression
  are replaced by the expansion of \<^verbatim>\<open>repl\<close>.
\<close>

definition ReplaceAllString :: "Runtime \<Rightarrow> Regexp \<Rightarrow> string \<Rightarrow> string \<Rightarrow> string" where
  "ReplaceAllString rt re src repl =
    (case re of
       Regexp r numSubexp \<Rightarrow> replaceAll src r (\<lambda>m. expand rt numSubexp repl src m) 0 0 []
     | Other_Regexp replaceAllString \<Rightarrow> replaceAllString src repl)"

section \<open>The plugin\<close>

subsection \<open>The host's data and interface\<close>

text \<open>
  The fields of \<^verbatim>\<open>model.Post\<close>, \<^verbatim>\<open>model.User\<close>, \<^verbatim>\<open>model.Channel\<close> and
  \<^verbatim>\<open>model.PostList\<close> that the plugin reads or writes. A \<^verbatim>\<open>PostList\<close> holds the
  order of its posts and a Go map from post id to post; the map is an association
  list here, in the order in which \<^verbatim>\<open>range\<close> happens to visit it, which Go leaves
  open.
\<close>

record Post =
  Id :: string
  CreateAt :: int
  UserId :: string
  ChannelId :: string
  RootId :: string
  Message :: string

record User =
  Id :: string
  Username :: string

record Channel =
  TeamId :: string

record PostList =
  Order :: "string list"
  Posts :: "(string \<times> Post) list"

text \<open>
  \<^verbatim>\<open>model.ParseSearchParams\<close> turns the search text into the host's search terms; the
  plugin only hands the result on, so it stays a constructor.
\<close>

datatype SearchParams = ParseSearchParams string int

text \<open>
  The calls of \<^verbatim>\<open>p.API\<close>. A call that fails returns an \<^verbatim>\<open>*model.AppError\<close>, of which
  the plugin uses at most the text \<^verbatim>\<open>err.Error()\<close>: \<open>Inl\<close> carries that text. The
  plugin calls each operation at most once for a message, so the answer of the host
  is a function of the arguments. \<^verbatim>\<open>SendEphemeralPost\<close> returns a post that the plugin
  drops; it only appears among the calls made.
\<close>

type_synonym AppError = string

record API =
  GetUser :: "string \<Rightarrow> AppError + User"
  GetChannel :: "string \<Rightarrow> AppError + Channel"
  GetPostThread :: "string \<Rightarrow> AppError + PostList"
  SearchPostsInTeam :: "string \<Rightarrow> SearchParams \<Rightarrow> AppError + Post list"
  UpdatePost :: "Post \<Rightarrow> AppError + Post"

datatype call =
  Call_GetUser string
| Call_GetChannel string
| Call_GetPostThread string
| Call_SearchPostsInTeam string SearchParams
| Call_UpdatePost Post
| Call_SendEphemeralPost string Post

definition minServerVersion :: string where
  "minServerVersion = ''5.10.0''"

definition usage :: string where
  "usage = ''Usage: s/{text to be replaced}/{new text}''"

definition noPostsFoundError :: string where
  "noPostsFoundError = ''`s/ Command: No previous post to be replaced.`''"

definition dismiss_post :: string where
  "dismiss_post = ''plugin.message_will_be_posted.dismiss_post''"

subsection \<open>The functions of the plugin\<close>

text \<open>
  \<^verbatim>\<open>replace\<close> of \<^verbatim>\<open>server/plugin.go\<close>: the pattern is \<^verbatim>\<open>old\<close> between \<^verbatim>\<open>\b(\<close> and
  \<^verbatim>\<open>)\b\<close>, as it stands.
\<close>

definition replace :: "Runtime \<Rightarrow> string \<Rightarrow> string \<Rightarrow> string \<Rightarrow> string run" where
  "replace rt str old new =
    (case MustCompile rt ([backslash, CHR ''b'', CHR ''(''] @ old @ [CHR '')'', backslash, CHR ''b'']) of
       Returns re \<Rightarrow> Returns (ReplaceAllString rt re str new)
     | Panics p \<Rightarrow> Panics p)"

text \<open>
  The methods of \<^verbatim>\<open>model.PostList\<close> that \<^verbatim>\<open>getLastPost\<close> calls. \<^verbatim>\<open>AddOrder\<close> appends
  an id to the order. \<^verbatim>\<open>SortByCreateAt\<close> sorts the order with \<^verbatim>\<open>sort.Slice\<close>, newest
  post first: its \<^verbatim>\<open>less\<close> is
  \<^verbatim>\<open>o.Posts[o.Order[i]].CreateAt > o.Posts[o.Order[j]].CreateAt\<close>, which dereferences a
  nil pointer for an id that is not in the map; sorting two or more ids compares each
  of them.
\<close>

definition AddOrder :: "PostList \<Rightarrow> string \<Rightarrow> PostList" where
  "AddOrder o' id' = o'\<lparr>Order := Order o' @ [id']\<rparr>"

definition newer :: "PostList \<Rightarrow> string \<Rightarrow> string \<Rightarrow> bool" where
  "newer o' a b =
    (case (map_of (Posts o') a, map_of (Posts o') b) of
       (Some p, Some q) \<Rightarrow> CreateAt q < CreateAt p
     | _ \<Rightarrow> False)"

definition SortByCreateAt :: "Runtime \<Rightarrow> PostList \<Rightarrow> PostList run" where
  "SortByCreateAt rt o' =
    (if 2 \<le> length (Order o') \<and> (\<exists>k \<in> set (Order o'). map_of (Posts o') k = None)
     then Panics Nil_dereference
     else Returns (o'\<lparr>Order := sort_Slice rt (newer o') (Order o')\<rparr>))"

text \<open>
  The loop of \<^verbatim>\<open>getLastPost\<close> over the sorted order: the first post of the invoking
  user. \<^verbatim>\<open>postThread.Posts[key]\<close> is nil for a key that is not in the map, and reading
  its \<^verbatim>\<open>UserId\<close> panics.
\<close>

fun first_post_of :: "PostList \<Rightarrow> User \<Rightarrow> string list \<Rightarrow> (Post option \<times> string) run" where
  "first_post_of postThread user [] = Returns (None, noPostsFoundError)"
| "first_post_of postThread user (key # keys) =
    (case map_of (Posts postThread) key of
       None \<Rightarrow> Panics Nil_dereference
     | Some post \<Rightarrow>
         if UserId post = User.Id user then Returns (Some post, [])
         else first_post_of postThread user keys)"

text \<open>
  The first loop of \<^verbatim>\<open>getLastPost\<close>,
  \<^verbatim>\<open>for _, post := range postThread.Posts { postThread.AddOrder(post.Id) }\<close>.
\<close>

definition add_orders :: "PostList \<Rightarrow> PostList" where
  "add_orders postThread =
    foldl (\<lambda>o' (key, post). AddOrder o' (Post.Id post)) postThread (Posts postThread)"

text \<open>
  \<^verbatim>\<open>getLastPost\<close> returns \<^verbatim>\<open>(*model.Post, string)\<close>; the model returns that pair (or
  the panic) together with the calls made to the host.
\<close>

definition getLastPost ::
  "Runtime \<Rightarrow> API \<Rightarrow> User \<Rightarrow> string \<Rightarrow> string \<Rightarrow> (Post option \<times> string) run \<times> call list" where
  "getLastPost rt api user teamId rootId =
    (if rootId \<noteq> [] then
       (case GetPostThread api rootId of
          Inl err \<Rightarrow> (Returns (None, err), [Call_GetPostThread rootId])
        | Inr postThread \<Rightarrow>
            (case SortByCreateAt rt (add_orders postThread) of
               Returns sortedThread \<Rightarrow>
                 (first_post_of sortedThread user (Order sortedThread),
                  [Call_GetPostThread rootId])
             | Panics p \<Rightarrow> (Panics p, [Call_GetPostThread rootId])))
     else
       let searchParams = ParseSearchParams (''from:'' @ Username user) 0 in
       (case SearchPostsInTeam api teamId searchParams of
          Inl err \<Rightarrow> (Returns (None, err), [Call_SearchPostsInTeam teamId searchParams])
        | Inr posts \<Rightarrow>
            if length posts < 1
            then (Returns (None, noPostsFoundError), [Call_SearchPostsInTeam teamId searchParams])
            else (Returns (Some (posts ! 0), []), [Call_SearchPostsInTeam teamId searchParams])))"

text \<open>
  \<^verbatim>\<open>MessageWillBePosted\<close> returns \<^verbatim>\<open>(*model.Post, string)\<close>: the post is always nil,
  and the string is empty to let the message through or the reason for which it is
  dismissed. The model returns the pair (or the panic) and the calls made to the host,
  in order.
\<close>

definition MessageWillBePosted ::
  "Runtime \<Rightarrow> API \<Rightarrow> Post \<Rightarrow> (Post option \<times> string) run \<times> call list" where
  "MessageWillBePosted rt api post =
    (let trimmedMessage = TrimSpace (Message post) in
     if \<not> HasPrefix trimmedMessage ''s/'' then (Returns (None, []), [])
     else
       let notification =
             \<lparr>Post.Id = [], CreateAt = GetMillis rt, UserId = [], ChannelId = ChannelId post,
              RootId = RootId post, Message = []\<rparr>
       in
       (case splitAndValidateInput trimmedMessage of
          Inl err \<Rightarrow>
            (Returns (None, dismiss_post),
             [Call_SendEphemeralPost (UserId post)
                (notification\<lparr>Message := ''Invalid command format. '' @ usage\<rparr>)])
        | Inr oldAndNew \<Rightarrow>
            let old = oldAndNew ! 0; new = oldAndNew ! 1 in
            (case GetUser api (UserId post) of
               Inl appErr \<Rightarrow> (Returns (None, []), [Call_GetUser (UserId post)])
             | Inr user \<Rightarrow>
                 (case GetChannel api (ChannelId post) of
                    Inl appErr \<Rightarrow>
                      (Returns (None, []),
                       [Call_GetUser (UserId post), Call_GetChannel (ChannelId post)])
                  | Inr ch \<Rightarrow>
                      let found = getLastPost rt api user (TeamId ch) (RootId post);
                          calls = [Call_GetUser (UserId post), Call_GetChannel (ChannelId post)]
                                    @ snd found
                      in
                      (case fst found of
                         Panics p \<Rightarrow> (Panics p, calls)
                       | Returns (lastPost, errId) \<Rightarrow>
                           if errId \<noteq> [] then
                             (Returns (None, dismiss_post),
                              calls @ [Call_SendEphemeralPost (User.Id user)
                                         (notification\<lparr>Message := errId\<rparr>)])
                           else
                             (case lastPost of
                                None \<Rightarrow> (Panics Nil_dereference, calls)
                              | Some lastPost \<Rightarrow>
                                  (case replace rt (Message lastPost) old new of
                                     Panics p \<Rightarrow> (Panics p, calls)
                                   | Returns message \<Rightarrow>
                                       (case UpdatePost api (lastPost\<lparr>Message := message\<rparr>) of
                                          Inl appErr \<Rightarrow>
                                            (Returns (None, []),
                                             calls @ [Call_UpdatePost
                                                        (lastPost\<lparr>Message := message\<rparr>)])
                                        | Inr updated \<Rightarrow>
                                            (Returns (None, dismiss_post),
                                             calls @
                                             [Call_UpdatePost (lastPost\<lparr>Message := message\<rparr>),
                                              Call_SendEphemeralPost (User.Id user)
                                                (notification\<lparr>Message :=
                                                   ''s/ Replaced '' @ [CHR 0x22] @ old @ [CHR 0x22]
                                                   @ '' for '' @ [CHR 0x22] @ new
                                                   @ [CHR 0x22]\<rparr>)])))))))))"

section \<open>Notions used in the properties\<close>

text \<open>
  The runes of a string, as \<^verbatim>\<open>for _, r := range s\<close> yields them; a string is only
  white space when \<^verbatim>\<open>unicode.IsSpace\<close> holds of each of them.
\<close>

function runes :: "string \<Rightarrow> rune list" where
  "runes s =
    (if s = [] then []
     else fst (DecodeRuneInString s) # runes (drop (snd (DecodeRuneInString s)) s))"
  by pat_completeness auto
termination
proof (relation "measure length")
  fix s :: string
  assume "s \<noteq> []"
  then have "0 < snd (DecodeRuneInString s)" by (rule DecodeRuneInString_width)
  with \<open>s \<noteq> []\<close> show "(drop (snd (DecodeRuneInString s)) s, s) \<in> measure length" by simp
qed simp

declare runes.simps [simp del]

text \<open>
  A string contains a whole-word occurrence of \<open>old\<close>, in the sense of the program,
  when the pattern that \<^verbatim>\<open>replace\<close> builds from \<open>old\<close> is one of the fragment and has
  a match in it.
\<close>

definition has_whole_word_match :: "string \<Rightarrow> string \<Rightarrow> bool" where
  "has_whole_word_match old str =
    (case Parse ([backslash, CHR ''b'', CHR ''(''] @ old @ [CHR '')'', backslash, CHR ''b'']) of
       Parsed re n \<Rightarrow> find_match str re 0 \<noteq> None
     | Parse_error e \<Rightarrow> False
     | Outside_fragment \<Rightarrow> False)"

text \<open>
  The pattern that \<^verbatim>\<open>replace\<close> builds from \<open>old\<close>, and the expression it compiles to
  when \<open>old\<close> is a word (letters, digits and underscores only).
\<close>

definition word_pattern :: "string \<Rightarrow> string" where
  "word_pattern old = [backslash, CHR ''b'', CHR ''(''] @ old @ [CHR '')'', backslash, CHR ''b'']"

definition word_regex :: "string \<Rightarrow> regex" where
  "word_regex old =
    Concat WordBoundary (Concat (Capture 1 (concat_op (map Literal old))) WordBoundary)"

text \<open>
  A whole-word occurrence of \<open>old\<close> at position \<open>i\<close> of a text: the text reads \<open>old\<close>
  there, between two word boundaries.
\<close>

definition occurs_at :: "string \<Rightarrow> string \<Rightarrow> nat \<Rightarrow> bool" where
  "occurs_at old s i \<longleftrightarrow>
    i + length old \<le> length s \<and> take (length old) (drop i s) = old
    \<and> word_boundary s i \<and> word_boundary s (i + length old)"

text \<open>
  What the replacement template \<open>new\<close> expands to at a match of a word \<open>old\<close>: the
  pattern has one group, which holds \<open>old\<close>, as does the whole match.
\<close>

definition expansion :: "Runtime \<Rightarrow> string \<Rightarrow> string \<Rightarrow> string" where
  "expansion rt old new = expand rt 1 new old (0, length old, [(1, 0, length old)])"

text \<open>
  Word-by-word substitution: the text is cut into runs of characters that are not word
  characters and maximal runs of word characters, and each of the latter that equals
  \<open>old\<close> is replaced by \<open>new\<close>.
\<close>

function replace_words :: "string \<Rightarrow> string \<Rightarrow> string \<Rightarrow> string" where
  "replace_words old new u =
    (case dropWhile (\<lambda>c. \<not> IsWordChar c) u of
       [] \<Rightarrow> u
     | c # cs \<Rightarrow>
         takeWhile (\<lambda>c. \<not> IsWordChar c) u
         @ (if takeWhile IsWordChar (c # cs) = old then new else takeWhile IsWordChar (c # cs))
         @ replace_words old new (dropWhile IsWordChar (c # cs)))"
  by pat_completeness auto
termination
proof (relation "measure (\<lambda>(old, new, u). length u)")
  fix old new u :: string and c cs
  assume eq: "dropWhile (\<lambda>c. \<not> IsWordChar c) u = c # cs"
  then have "dropWhile (\<lambda>c. \<not> IsWordChar c) u \<noteq> []" by simp
  from hd_dropWhile [OF this] eq have c: "IsWordChar c" by simp
  have "length (dropWhile IsWordChar (c # cs)) \<le> length cs"
    using c by (simp add: length_dropWhile_le)
  also have "\<dots> < length (dropWhile (\<lambda>c. \<not> IsWordChar c) u)" by (simp add: eq)
  also have "\<dots> \<le> length u" by (rule length_dropWhile_le)
  finally show "((old, new, dropWhile IsWordChar (c # cs)), (old, new, u))
                  \<in> measure (\<lambda>(old, new, u). length u)"
    by simp
qed simp

declare replace_words.simps [simp del]

text \<open>
  The literal whole-word substitution that the specification describes (section 4.3
  and the glossary), for comparison with \<^verbatim>\<open>replace\<close>: going through \<open>str\<close> from
  position \<open>i\<close>, every occurrence of the string \<open>old\<close> itself that has no word
  character right before it and none right after it is replaced by \<open>new\<close>.
\<close>

function literal_replace :: "string \<Rightarrow> nat \<Rightarrow> string \<Rightarrow> string \<Rightarrow> string" where
  "literal_replace str i old new =
    (if i < length str then
       (if old \<noteq> [] \<and> take (length old) (drop i str) = old
           \<and> \<not> (0 < i \<and> word_at str (i - 1)) \<and> \<not> word_at str (i + length old)
        then new @ literal_replace str (i + length old) old new
        else str ! i # literal_replace str (i + 1) old new)
     else [])"
  by pat_completeness auto
termination
proof (relation "measure (\<lambda>(str, i, old, new). length str - i)")
  fix str :: string and i :: nat and old new :: string
  assume "i < length str"
    and "old \<noteq> [] \<and> take (length old) (drop i str) = old
          \<and> \<not> (0 < i \<and> word_at str (i - 1)) \<and> \<not> word_at str (i + length old)"
  then have "i < length str" and "old \<noteq> []" by simp_all
  then show "((str, i + length old, old, new), (str, i, old, new))
               \<in> measure (\<lambda>(str, i, old, new). length str - i)"
    by (cases old) simp_all
qed auto

declare literal_replace.simps [simp del]

text \<open>
  The notice that the hook sends for a command: the \<^verbatim>\<open>notification\<close> of
  \<^verbatim>\<open>MessageWillBePosted\<close> with its message set; and the calls with which the hook looks
  up the author and the channel.
\<close>

definition notice :: "Runtime \<Rightarrow> Post \<Rightarrow> string \<Rightarrow> Post" where
  "notice rt post message =
    \<lparr>Post.Id = [], CreateAt = GetMillis rt, UserId = [], ChannelId = ChannelId post,
     RootId = RootId post, Message = message\<rparr>"

definition lookups :: "Post \<Rightarrow> call list" where
  "lookups post = [Call_GetUser (UserId post), Call_GetChannel (ChannelId post)]"

text \<open>
  A \<^verbatim>\<open>PostList\<close> as the host builds it: the map is keyed by the id of each post, and
  the order names posts of the map only.
\<close>

definition keyed_by_id :: "PostList \<Rightarrow> bool" where
  "keyed_by_id o' \<longleftrightarrow>
    distinct (map fst (Posts o')) \<and> (\<forall>(key, post) \<in> set (Posts o'). Post.Id post = key)
    \<and> set (Order o') \<subseteq> fst ` set (Posts o')"

text \<open>
  What \<^verbatim>\<open>sort.Slice\<close> promises for the call in \<^verbatim>\<open>SortByCreateAt\<close>: the ids come back
  permuted so that no id stands before one of a newer post.
\<close>

definition sorts_newest_first :: "Runtime \<Rightarrow> PostList \<Rightarrow> bool" where
  "sorts_newest_first rt o' \<longleftrightarrow>
    mset (sort_Slice rt (newer o') (Order o')) = mset (Order o')
    \<and> sorted_wrt (\<lambda>a b. \<not> newer o' b a) (sort_Slice rt (newer o') (Order o'))"

section \<open>Example hosts\<close>

text \<open>
  A runtime whose \<^verbatim>\<open>sort.Slice\<close> is an insertion sort, whose Unicode tables are empty
  and whose regexp package knows the fragment only, answering any other pattern with an
  internal error; the same runtime with a package that also knows the pattern
  \<^verbatim>\<open>\b([b]ee)\b\<close>, on which it does what the Go package does (the class \<^verbatim>\<open>[b]\<close>
  matches the letter \<^verbatim>\<open>b\<close> and nothing else, so the pattern has the matches and the
  group of \<^verbatim>\<open>\b(bee)\b\<close>); and the host of the test
  suite (\<^verbatim>\<open>TestExecuteCommand\<close>): every lookup succeeds, the thread and the search
  both hold the given posts, and every update succeeds.
\<close>

fun insert_by :: "('a \<Rightarrow> 'a \<Rightarrow> bool) \<Rightarrow> 'a \<Rightarrow> 'a list \<Rightarrow> 'a list" where
  "insert_by lt x [] = [x]"
| "insert_by lt x (y # ys) = (if lt x y then x # y # ys else y # insert_by lt x ys)"

definition insertion_sort :: "('a \<Rightarrow> 'a \<Rightarrow> bool) \<Rightarrow> 'a list \<Rightarrow> 'a list" where
  "insertion_sort lt xs = foldr (insert_by lt) xs []"

definition test_runtime :: Runtime where
  "test_runtime =
    \<lparr>GetMillis = 1000, sort_Slice = insertion_sort, Letter = (\<lambda>r. False), Digit = (\<lambda>r. False),
     regexp_Compile = (\<lambda>pattern. Inl ErrInternalError)\<rparr>"

definition class_runtime :: Runtime where
  "class_runtime =
    test_runtime
      \<lparr>regexp_Compile :=
         (\<lambda>pattern.
            if pattern = [backslash, CHR ''b''] @ ''([b]ee)'' @ [backslash, CHR ''b'']
            then Inr (ReplaceAllString test_runtime (Regexp (word_regex ''bee'') 1))
            else Inl ErrInternalError)\<rparr>"

definition test_post :: "string \<Rightarrow> string \<Rightarrow> Post" where
  "test_post rootId message =
    \<lparr>Post.Id = [], CreateAt = 0, UserId = ''testUserId'', ChannelId = ''testChannelId'',
     RootId = rootId, Message = message\<rparr>"

definition stored_post :: "string \<Rightarrow> int \<Rightarrow> string \<Rightarrow> string \<Rightarrow> Post" where
  "stored_post id' t uid message =
    \<lparr>Post.Id = id', CreateAt = t, UserId = uid, ChannelId = ''testChannelId'',
     RootId = [], Message = message\<rparr>"

definition test_api :: "Post list \<Rightarrow> API" where
  "test_api posts =
    \<lparr>GetUser = (\<lambda>id'. Inr \<lparr>User.Id = id', Username = ''test''\<rparr>),
     GetChannel = (\<lambda>id'. Inr \<lparr>TeamId = ''testTeamId''\<rparr>),
     GetPostThread = (\<lambda>rootId. Inr \<lparr>Order = [], Posts = map (\<lambda>p. (Post.Id p, p)) posts\<rparr>),
     SearchPostsInTeam = (\<lambda>teamId params. Inr posts),
     UpdatePost = (\<lambda>p. Inr p)\<rparr>"

text \<open>
  A thread with posts of two authors, and hosts on which one of the operations fails.
\<close>

definition example_posts :: "Post list" where
  "example_posts =
    [stored_post ''p1'' 5 ''other'' ''first'',
     stored_post ''p2'' 7 ''testUserId'' ''message to bee replaced'',
     stored_post ''p3'' 6 ''testUserId'' ''older bee'',
     stored_post ''p4'' 9 ''other'' ''bee'']"

definition example_thread :: PostList where
  "example_thread = \<lparr>Order = [], Posts = map (\<lambda>p. (Post.Id p, p)) example_posts\<rparr>"

definition no_user_api :: API where
  "no_user_api = (test_api example_posts)\<lparr>GetUser := (\<lambda>id'. Inl ''GetUser: not found, '')\<rparr>"

definition no_channel_api :: API where
  "no_channel_api = (test_api example_posts)\<lparr>GetChannel := (\<lambda>id'. Inl ''GetChannel: not found, '')\<rparr>"

definition no_search_api :: API where
  "no_search_api =
    (test_api example_posts)\<lparr>SearchPostsInTeam := (\<lambda>teamId params. Inl ''SearchPostsInTeam: failed, '')\<rparr>"

definition no_update_api :: API where
  "no_update_api = (test_api example_posts)\<lparr>UpdatePost := (\<lambda>p. Inl ''UpdatePost: refused, '')\<rparr>"

section \<open>Properties\<close>

subsection \<open>Messages that are not commands\<close>

text \<open>
  C10. A message whose text, trimmed of white space, does not start with \<^verbatim>\<open>s/\<close> is let
  through unchanged: the hook returns the nil post and the empty reason, and makes no
  call to the host at all (no lookup, no update, no notice).
\<close>

theorem not_a_command_is_let_through:
  "\<not> HasPrefix (TrimSpace (Message post)) ''s/''
    \<Longrightarrow> MessageWillBePosted rt api post = (Returns (None, []), [])"
  by (simp add: MessageWillBePosted_def)

theorem not_a_command_is_let_through_witness:
  "\<not> HasPrefix (TrimSpace (Message (test_post [] ''say s/hello/world''))) ''s/''
   \<and> (\<forall>rt api. MessageWillBePosted rt api (test_post [] ''say s/hello/world'')
                  = (Returns (None, []), []))"
proof -
  have no_prefix: "\<not> HasPrefix (TrimSpace (Message (test_post [] ''say s/hello/world''))) ''s/''"
    by code_simp
  show ?thesis
    using no_prefix not_a_command_is_let_through [OF no_prefix] by blast
qed

subsection \<open>Whole-word replacement\<close>

text \<open>A replacement without \<^verbatim>\<open>$\<close> is inserted as it stands.\<close>

lemma expand_plain: "CHR ''$'' \<notin> set template \<Longrightarrow> expand rt n template src m = template"
  by (induction template) auto

text \<open>
  C2. \<^verbatim>\<open>replace\<close> puts \<open>old\<close> into the pattern as it stands, so a metacharacter in
  \<open>old\<close> is pattern syntax: \<open>old = "."\<close> compiles to \<^verbatim>\<open>\b(.)\b\<close> with the operator
  "any character", and replacing it in \<^verbatim>\<open>a\<close> by \<^verbatim>\<open>x\<close> gives \<^verbatim>\<open>x\<close>, where the literal
  whole-word substitution of the string \<^verbatim>\<open>.\<close> leaves \<^verbatim>\<open>a\<close> as it is.
\<close>

theorem replace_interprets_metacharacters:
  "MustCompile rt ([backslash, CHR ''b'', CHR ''(''] @ ''.'' @ [CHR '')'', backslash, CHR ''b''])
     = Returns (Regexp (Concat WordBoundary (Concat (Capture 1 AnyCharNotNL) WordBoundary)) 1)
   \<and> replace rt ''a'' ''.'' ''x'' = Returns ''x''
   \<and> literal_replace ''a'' 0 ''.'' ''x'' = ''a''"
proof -
  have "Parse ([backslash, CHR ''b'', CHR ''(''] @ ''.'' @ [CHR '')'', backslash, CHR ''b''])
          = Parsed (Concat WordBoundary (Concat (Capture 1 AnyCharNotNL) WordBoundary)) 1"
    by code_simp
  then have compile:
    "MustCompile rt ([backslash, CHR ''b'', CHR ''(''] @ ''.'' @ [CHR '')'', backslash, CHR ''b''])
      = Returns (Regexp (Concat WordBoundary (Concat (Capture 1 AnyCharNotNL) WordBoundary)) 1)"
    by (simp add: MustCompile_def)
  have "replaceAll ''a'' (Concat WordBoundary (Concat (Capture 1 AnyCharNotNL) WordBoundary))
          (\<lambda>m. ''x'') 0 0 [] = ''x''"
    by code_simp
  moreover have "expand rt (Suc 0) ''x'' ''a'' = (\<lambda>m. ''x'')"
    by (rule ext) (simp add: expand_plain)
  ultimately have "replace rt ''a'' ''.'' ''x'' = Returns ''x''"
    using compile by (simp add: replace_def ReplaceAllString_def)
  moreover have "literal_replace ''a'' 0 ''.'' ''x'' = ''a''" by code_simp
  ultimately show ?thesis using compile by simp
qed

lemma MustCompile_open_paren:
  "MustCompile rt ([backslash, CHR ''b'', CHR ''(''] @ ''('' @ [CHR '')'', backslash, CHR ''b''])
    = Panics (Regexp_Compile ErrMissingParen)"
proof -
  have "Parse ([backslash, CHR ''b'', CHR ''(''] @ ''('' @ [CHR '')'', backslash, CHR ''b''])
          = Parse_error ErrMissingParen"
    by code_simp
  then show ?thesis by (simp add: MustCompile_def)
qed

lemma replace_open_paren: "replace rt str ''('' new = Panics (Regexp_Compile ErrMissingParen)"
  using MustCompile_open_paren [of rt] by (simp add: replace_def)

text \<open>
  C3. \<^verbatim>\<open>replace\<close> is not total: for \<open>old = "("\<close> the pattern \<^verbatim>\<open>\b(()\b\<close> does not
  compile (missing closing parenthesis) and \<^verbatim>\<open>replace\<close> panics, whatever the text and
  the replacement. So the command \<^verbatim>\<open>s/(/x\<close>, once the author, the channel and a last
  post are found, ends in that panic: the hook returns nothing, and no update and no
  notice follow the lookups.
\<close>

theorem replace_panics_on_open_paren:
  "replace rt str ''('' new = Panics (Regexp_Compile ErrMissingParen)
   \<and> (TrimSpace (Message post) = ''s/(/x'' \<and> GetUser api (UserId post) = Inr user
        \<and> GetChannel api (ChannelId post) = Inr ch
        \<and> fst (getLastPost rt api user (TeamId ch) (RootId post)) = Returns (Some lastPost, [])
      \<longrightarrow> MessageWillBePosted rt api post
            = (Panics (Regexp_Compile ErrMissingParen),
               [Call_GetUser (UserId post), Call_GetChannel (ChannelId post)]
               @ snd (getLastPost rt api user (TeamId ch) (RootId post))))"
proof -
  have parsed: "splitAndValidateInput ''s/(/x'' = Inr [''('', ''x'']" by code_simp
  have prefix: "HasPrefix ''s/(/x'' ''s/''" by code_simp
  show ?thesis
    using replace_open_paren
    by (auto simp: MessageWillBePosted_def Let_def parsed prefix)
qed

theorem replace_panics_on_open_paren_witness:
  "TrimSpace (Message (test_post [] ''s/(/x'')) = ''s/(/x''
   \<and> GetUser (test_api example_posts) (UserId (test_post [] ''s/(/x''))
       = Inr \<lparr>User.Id = ''testUserId'', Username = ''test''\<rparr>
   \<and> GetChannel (test_api example_posts) (ChannelId (test_post [] ''s/(/x''))
       = Inr \<lparr>TeamId = ''testTeamId''\<rparr>
   \<and> fst (getLastPost test_runtime (test_api example_posts)
             \<lparr>User.Id = ''testUserId'', Username = ''test''\<rparr>
             (TeamId \<lparr>TeamId = ''testTeamId''\<rparr>) (RootId (test_post [] ''s/(/x'')))
       = Returns (Some (stored_post ''p1'' 5 ''other'' ''first''), [])
   \<and> fst (MessageWillBePosted test_runtime (test_api example_posts) (test_post [] ''s/(/x''))
       = Panics (Regexp_Compile ErrMissingParen)"
proof -
  have a: "TrimSpace (Message (test_post [] ''s/(/x'')) = ''s/(/x''" by code_simp
  have b: "GetUser (test_api example_posts) (UserId (test_post [] ''s/(/x''))
            = Inr \<lparr>User.Id = ''testUserId'', Username = ''test''\<rparr>"
    by code_simp
  have c: "GetChannel (test_api example_posts) (ChannelId (test_post [] ''s/(/x''))
            = Inr \<lparr>TeamId = ''testTeamId''\<rparr>"
    by code_simp
  have d: "fst (getLastPost test_runtime (test_api example_posts)
             \<lparr>User.Id = ''testUserId'', Username = ''test''\<rparr>
             (TeamId \<lparr>TeamId = ''testTeamId''\<rparr>) (RootId (test_post [] ''s/(/x'')))
            = Returns (Some (stored_post ''p1'' 5 ''other'' ''first''), [])"
    by code_simp
  from replace_panics_on_open_paren
         [where rt = test_runtime and post = "test_post [] ''s/(/x''"
            and api = "test_api example_posts"
            and user = "\<lparr>User.Id = ''testUserId'', Username = ''test''\<rparr>"
            and ch = "\<lparr>TeamId = ''testTeamId''\<rparr>"
            and lastPost = "stored_post ''p1'' 5 ''other'' ''first''"]
       a b c d
  have "fst (MessageWillBePosted test_runtime (test_api example_posts) (test_post [] ''s/(/x''))
          = Panics (Regexp_Compile ErrMissingParen)"
    by simp
  with a b c d show ?thesis by (intro conjI)
qed

subsection \<open>Replacing a word\<close>

text \<open>
  When \<open>old\<close> is a word, the pattern compiles to \<open>word_regex old\<close>, its matches are the
  whole-word occurrences of \<open>old\<close>, and the loop of \<^verbatim>\<open>replaceAll\<close> computes the
  word-by-word substitution \<open>replace_words\<close>.
\<close>

lemma IsWordChar_ascii: "IsWordChar c \<Longrightarrow> byte c < RuneSelf"
  by (auto simp: IsWordChar_def isalnum_def RuneSelf_def byte_def)

lemma word_not_special:
  assumes "IsWordChar c"
  shows "c \<noteq> CHR ''(''" "c \<noteq> CHR ''|''" "c \<noteq> CHR '')''" "c \<noteq> CHR ''*''" "c \<noteq> CHR ''+''"
    "c \<noteq> CHR ''?''" "c \<noteq> CHR ''.''" "c \<noteq> backslash" "c \<noteq> CHR ''[''" "c \<noteq> CHR ''{''"
    "c \<noteq> CHR ''^''" "c \<noteq> CHR ''$''"
  using assms by (auto simp: IsWordChar_def isalnum_def byte_def backslash_def)

lemma parse_token_word:
  "IsWordChar c \<Longrightarrow>
    parse_token c t ncap stack alts ops lastRepeat = Next t ncap stack alts (ops @ [Literal c]) False"
  unfolding parse_token_def
  by (simp add: word_not_special)

lemma parse_loop_word:
  "list_all IsWordChar w \<Longrightarrow>
    parse_loop (w @ rest) ncap stack alts ops lastRepeat
      = parse_loop rest ncap stack alts (ops @ map Literal w) (if w = [] then lastRepeat else False)"
proof (induction w arbitrary: ops lastRepeat)
  case Nil
  then show ?case by simp
next
  case (Cons c w)
  then have c: "IsWordChar c" and w: "list_all IsWordChar w" by simp_all
  have "parse_loop ((c # w) @ rest) ncap stack alts ops lastRepeat
          = parse_loop (w @ rest) ncap stack alts (ops @ [Literal c]) False"
    by (simp add: parse_token_word [OF c])
  also have "\<dots> = parse_loop rest ncap stack alts ((ops @ [Literal c]) @ map Literal w)
                      (if w = [] then False else False)"
    by (rule Cons.IH [OF w])
  finally show ?case by simp
qed

lemma Parse_word:
  assumes "old \<noteq> []" and "list_all IsWordChar old"
  shows "Parse (word_pattern old) = Parsed (word_regex old) 1"
proof -
  from assms(1) obtain c w where old: "old = c # w" by (cases old) auto
  with assms(2) have c: "IsWordChar c" by simp
  then have q: "c \<noteq> CHR ''?''" by (rule word_not_special)
  from assms(2) have ascii: "\<forall>c \<in> set old. \<not> RuneSelf \<le> byte c"
    using IsWordChar_ascii by (fastforce simp: list_all_iff)
  have guard: "\<not> (\<exists>c \<in> set (word_pattern old). RuneSelf \<le> byte c)"
    using ascii by (auto simp: word_pattern_def backslash_def byte_def RuneSelf_def)
  have "parse_loop (word_pattern old) 0 [] [] [] False
          = parse_loop (CHR ''('' # old @ [CHR '')'', backslash, CHR ''b'']) 0 [] [] [WordBoundary] False"
    by (simp add: word_pattern_def parse_token_def backslash_def)
  also have "\<dots> = parse_loop (old @ [CHR '')'', backslash, CHR ''b'']) 1 [(1, [], [WordBoundary])] [] [] False"
    using q by (simp add: parse_token_def old)
  also have "\<dots> = parse_loop [CHR '')'', backslash, CHR ''b''] 1 [(1, [], [WordBoundary])] []
                     ([] @ map Literal old) (if old = [] then False else False)"
    by (rule parse_loop_word [OF assms(2)])
  also have "\<dots> = parse_loop [backslash, CHR ''b''] 1 [] []
                     [WordBoundary, Capture 1 (concat_op (map Literal old))] False"
    by (simp add: parse_token_def backslash_def)
  also have "\<dots> = Parsed (word_regex old) 1"
    by (simp add: parse_token_def backslash_def word_regex_def)
  finally show ?thesis using guard by (simp add: Parse_def)
qed

lemma ends_literals:
  "w \<noteq> [] \<Longrightarrow>
    ends s (concat_op (map Literal w)) i cs
      = (if i + length w \<le> length s \<and> take (length w) (drop i s) = w
         then [(i + length w, cs)] else [])"
proof (induction w arbitrary: i rule: list_nonempty_induct)
  case (single c)
  show ?case
    by (cases "i < length s")
       (auto simp: ends.simps(1) take_Suc_conv_app_nth hd_drop_conv_nth take_Suc)
next
  case (cons c w)
  from cons(1) obtain c' w' where w: "w = c' # w'" by (cases w) auto
  have "ends s (concat_op (map Literal (c # w))) i cs
          = concat (map (\<lambda>(j, c). ends s (concat_op (map Literal w)) j c) (ends s (Literal c) i cs))"
    by (simp add: w ends.simps(6))
  also have "\<dots> = (if i < length s \<and> s ! i = c
                     then ends s (concat_op (map Literal w)) (i + 1) cs else [])"
    by (auto simp: ends.simps(1))
  also have "\<dots> = (if i + length (c # w) \<le> length s \<and> take (length (c # w)) (drop i s) = c # w
                     then [(i + length (c # w), cs)] else [])"
  proof (cases "i < length s")
    case True
    then have "drop i s = s ! i # drop (Suc i) s" by (simp add: Cons_nth_drop_Suc)
    then show ?thesis using True by (auto simp: cons.IH)
  next
    case False
    then show ?thesis by simp
  qed
  finally show ?case .
qed

lemma ends_word_regex:
  "old \<noteq> [] \<Longrightarrow>
    ends s (word_regex old) i []
      = (if occurs_at old s i then [(i + length old, [(1, i, i + length old)])] else [])"
  by (auto simp: word_regex_def ends.simps ends_literals occurs_at_def)

lemma DecodeRune_continuation:
  assumes "0 < k" and "k < snd (DecodeRuneInString u)"
  shows "k < length u \<and> RuneSelf \<le> byte (u ! k)"
proof (cases u)
  case Nil
  with assms show ?thesis by simp
next
  case (Cons c0 t)
  from assms have k: "k = 1 \<or> k = 2 \<or> k = 3"
    unfolding Cons by (auto simp: Let_def split: if_splits)
  have len: "t \<noteq> [] \<Longrightarrow> 0 < length t" by simp
  from k assms show ?thesis
    unfolding Cons
    by (cases t; cases "tl t"; cases "tl (tl t)")
       (auto simp: Let_def RuneSelf_def accept_lo_def split: if_splits)
qed

lemma occurs_at_word:
  assumes "old \<noteq> []" and "list_all IsWordChar old" and "occurs_at old s i"
  shows "i < length s \<and> IsWordChar (s ! i)"
proof -
  from assms(1) obtain c w where old: "old = c # w" by (cases old) auto
  with assms(3) have len: "i < length s" by (simp add: occurs_at_def)
  then have "drop i s = s ! i # drop (Suc i) s" by (simp add: Cons_nth_drop_Suc)
  with assms(3) old have "s ! i = c" by (simp add: occurs_at_def)
  with assms(2) old len show ?thesis by simp
qed

lemma no_occurrence_inside_rune:
  assumes "old \<noteq> []" and "list_all IsWordChar old"
    and "pos < i" and "i < pos + snd (DecodeRuneInString (drop pos s))"
  shows "\<not> occurs_at old s i"
proof
  assume occ: "occurs_at old s i"
  from assms(3,4) DecodeRune_continuation [of "i - pos" "drop pos s"]
  have "i - pos < length (drop pos s)" and "RuneSelf \<le> byte (drop pos s ! (i - pos))"
    by simp_all
  with assms(3) have "RuneSelf \<le> byte (s ! i)" by simp
  moreover from occurs_at_word [OF assms(1,2) occ] have "byte (s ! i) < RuneSelf"
    by (simp add: IsWordChar_ascii)
  ultimately show False by simp
qed

lemma find_match_word:
  assumes "old \<noteq> []" and "list_all IsWordChar old"
  shows "(find_match s (word_regex old) pos = None \<longrightarrow> (\<forall>i \<ge> pos. \<not> occurs_at old s i))
    \<and> (\<forall>a0 a1 cs. find_match s (word_regex old) pos = Some (a0, a1, cs) \<longrightarrow>
          pos \<le> a0 \<and> occurs_at old s a0 \<and> a1 = a0 + length old
          \<and> cs = [(1, a0, a0 + length old)] \<and> (\<forall>i. pos \<le> i \<and> i < a0 \<longrightarrow> \<not> occurs_at old s i))"
proof (induction s "word_regex old" pos rule: find_match.induct)
  case (1 s pos)
  note eq = find_match.simps [of s "word_regex old" pos]
  note e = ends_word_regex [OF assms(1), of s pos]
  show ?case
  proof (cases "occurs_at old s pos")
    case True
    then show ?thesis by (auto simp: eq e)
  next
    case False
    show ?thesis
    proof (cases "pos < length s")
      case True
      let ?next = "pos + snd (DecodeRuneInString (drop pos s))"
      from False have nil: "ends s (word_regex old) pos [] = []" by (simp add: e)
      have step: "find_match s (word_regex old) pos = find_match s (word_regex old) ?next"
        using True nil by (simp add: eq)
      have skip: "\<not> occurs_at old s i" if "pos \<le> i" and "i < ?next" for i
      proof (cases "i = pos")
        case True
        with False show ?thesis by simp
      next
        case False
        with that have "pos < i" by simp
        then show ?thesis using that(2) by (rule no_occurrence_inside_rune [OF assms])
      qed
      from "1.hyps" [OF nil True]
      have IH_none: "find_match s (word_regex old) ?next = None
                      \<Longrightarrow> \<forall>i \<ge> ?next. \<not> occurs_at old s i"
        and IH_some: "\<And>a0 a1 cs. find_match s (word_regex old) ?next = Some (a0, a1, cs)
                      \<Longrightarrow> ?next \<le> a0 \<and> occurs_at old s a0 \<and> a1 = a0 + length old
                          \<and> cs = [(1, a0, a0 + length old)]
                          \<and> (\<forall>i. ?next \<le> i \<and> i < a0 \<longrightarrow> \<not> occurs_at old s i)"
        by blast+
      have none: "\<not> occurs_at old s i"
        if "find_match s (word_regex old) pos = None" and "pos \<le> i" for i
      proof -
        from that step IH_none have "\<forall>j \<ge> ?next. \<not> occurs_at old s j" by simp
        with skip [of i] \<open>pos \<le> i\<close> show "\<not> occurs_at old s i"
          by (cases "i < ?next") auto
      qed
      have some: "pos \<le> a0 \<and> occurs_at old s a0 \<and> a1 = a0 + length old
          \<and> cs = [(1, a0, a0 + length old)] \<and> (\<forall>i. pos \<le> i \<and> i < a0 \<longrightarrow> \<not> occurs_at old s i)"
        if "find_match s (word_regex old) pos = Some (a0, a1, cs)" for a0 a1 cs
      proof -
        note that
        with step have "find_match s (word_regex old) ?next = Some (a0, a1, cs)" by simp
        note r = IH_some [OF this]
        from r have "pos \<le> a0" by simp
        moreover from r have "occurs_at old s a0" and "a1 = a0 + length old"
          and "cs = [(1, a0, a0 + length old)]"
          by simp_all
        moreover have "\<not> occurs_at old s i" if "pos \<le> i \<and> i < a0" for i
          using that skip [of i] r by (cases "i < ?next") auto
        ultimately show ?thesis by blast
      qed
      from none some show ?thesis by blast
    next
      case False
      have "\<not> occurs_at old s i" if "pos \<le> i" for i
        using that False occurs_at_word [OF assms, of s i] by auto
      with False \<open>\<not> occurs_at old s pos\<close> show ?thesis by (simp add: eq e)
    qed
  qed
qed

lemma find_match_word_none:
  assumes "old \<noteq> []" and "list_all IsWordChar old" and "\<forall>i \<ge> pos. \<not> occurs_at old s i"
  shows "find_match s (word_regex old) pos = None"
proof (cases "find_match s (word_regex old) pos")
  case None
  then show ?thesis .
next
  case (Some m)
  obtain a0 a1 cs where "m = (a0, a1, cs)" by (cases m)
  with Some find_match_word [OF assms(1,2), of s pos] have "pos \<le> a0 \<and> occurs_at old s a0" by blast
  with assms(3) show ?thesis by blast
qed

lemma find_match_word_first:
  assumes "old \<noteq> []" and "list_all IsWordChar old" and "pos \<le> a0" and "occurs_at old s a0"
    and "\<forall>i. pos \<le> i \<and> i < a0 \<longrightarrow> \<not> occurs_at old s i"
  shows "find_match s (word_regex old) pos = Some (a0, a0 + length old, [(1, a0, a0 + length old)])"
proof (cases "find_match s (word_regex old) pos")
  case None
  with find_match_word [OF assms(1,2), of s pos] assms(3,4) show ?thesis by blast
next
  case (Some m)
  obtain b0 b1 cs where m: "m = (b0, b1, cs)" by (cases m)
  with Some find_match_word [OF assms(1,2), of s pos]
  have b: "pos \<le> b0" "occurs_at old s b0" "b1 = b0 + length old" "cs = [(1, b0, b0 + length old)]"
    "\<forall>i. pos \<le> i \<and> i < b0 \<longrightarrow> \<not> occurs_at old s i"
    by blast+
  from b(1,2) assms(5) have "\<not> b0 < a0" by blast
  moreover from assms(3,4) b(5) have "\<not> a0 < b0" by blast
  ultimately have "b0 = a0" by simp
  with Some m b show ?thesis by simp
qed

lemma replaceAll_none:
  assumes "old \<noteq> []" and "list_all IsWordChar old" and "\<forall>i \<ge> pos. \<not> occurs_at old s i"
  shows "replaceAll s (word_regex old) repl pos lastMatchEnd buf = buf @ drop lastMatchEnd s"
  using find_match_word_none [OF assms]
  by (simp add: replaceAll.simps [of s _ repl pos lastMatchEnd buf])

lemma replaceAll_first:
  assumes "old \<noteq> []" and "list_all IsWordChar old" and "pos \<le> a0" and "occurs_at old s a0"
    and "\<forall>i. pos \<le> i \<and> i < a0 \<longrightarrow> \<not> occurs_at old s i"
    and "repl (a0, a0 + length old, [(1, a0, a0 + length old)]) = new"
  shows "replaceAll s (word_regex old) repl pos pos buf
          = replaceAll s (word_regex old) repl (a0 + length old) (a0 + length old)
              (buf @ slice s pos a0 @ new)"
proof -
  note fm = find_match_word_first [OF assms(1-5)]
  from occurs_at_word [OF assms(1,2,4)] have a0: "a0 < length s" and w: "IsWordChar (s ! a0)"
    by simp_all
  from assms(1) have len: "Suc 0 \<le> length old" by (cases old) simp_all
  let ?width = "snd (DecodeRuneInString (drop pos s))"
  have width: "pos + ?width \<le> a0 + length old"
  proof (cases "a0 = pos")
    case True
    from a0 have "drop a0 s = s ! a0 # drop (Suc a0) s" by (simp add: Cons_nth_drop_Suc)
    moreover from w have "byte (s ! a0) < 0x80" using IsWordChar_ascii by (simp add: RuneSelf_def)
    ultimately have "snd (DecodeRuneInString (drop a0 s)) = 1" by (simp add: Let_def)
    with True len show ?thesis by simp
  next
    case False
    with assms(3) have lt: "pos < a0" by simp
    have "\<not> a0 < pos + ?width"
    proof
      assume "a0 < pos + ?width"
      with lt no_occurrence_inside_rune [OF assms(1,2), of pos a0 s] assms(4) show False by simp
    qed
    then show ?thesis by simp
  qed
  from assms(3) a0 have pos: "pos \<le> length s" by simp
  from assms(3) len have lt: "pos < a0 + length old" by linarith
  show ?thesis
    using fm pos lt width assms(6)
    by (subst replaceAll.simps) (simp add: not_less)
qed

lemma slice_slice:
  assumes "p \<le> q" and "q \<le> r"
  shows "slice s p q @ slice s q r = slice s p r"
proof -
  from assms have a: "r - p = (q - p) + (r - q)" by simp
  from assms have b: "drop q s = drop (q - p) (drop p s)" by simp
  show ?thesis unfolding slice_def a b by (simp only: take_add)
qed

lemma takeWhile_dropWhile_run:
  assumes "list_all P a" and "b = [] \<or> \<not> P (hd b)"
  shows "takeWhile P (a @ b) = a" and "dropWhile P (a @ b) = b"
proof -
  from assms(1) have all: "\<forall>x \<in> set a. P x" by (simp add: list_all_iff)
  from assms(2) have "takeWhile P b = []" and "dropWhile P b = b" by (cases b; auto)+
  with all show "takeWhile P (a @ b) = a" and "dropWhile P (a @ b) = b"
    by (simp_all add: takeWhile_append2 dropWhile_append2)
qed

lemma nth_of_drop: "drop p s = a @ b \<Longrightarrow> i < length a \<Longrightarrow> s ! (p + i) = a ! i"
proof -
  assume d: "drop p s = a @ b" and i: "i < length a"
  then have "p + i < length s"
    by (metis add.commute length_append length_drop less_diff_conv trans_less_add1)
  then have "s ! (p + i) = drop p s ! i" by simp
  with d i show ?thesis by (simp add: nth_append)
qed

lemma drop_of_drop: "drop p s = a @ b \<Longrightarrow> drop (p + length a) s = b"
  by (metis add.commute append_eq_conv_conj drop_drop)

lemma slice_of_drop: "drop p s = a @ b \<Longrightarrow> slice s p (p + length a) = a"
  by (simp add: slice_def)

lemma length_of_drop: "drop p s = a @ b \<Longrightarrow> p \<le> length s \<Longrightarrow> p + length a + length b = length s"
  by (metis add.assoc le_add_diff_inverse length_append length_drop)

lemma occurs_at_run:
  assumes old: "old \<noteq> []" "list_all IsWordChar old"
    and d: "drop q s = w @ r" and q: "q \<le> length s"
    and w: "w \<noteq> []" "list_all IsWordChar w"
    and r: "r = [] \<or> \<not> IsWordChar (hd r)"
    and left: "q = 0 \<or> \<not> IsWordChar (s ! (q - 1))"
  shows "occurs_at old s q \<longleftrightarrow> w = old"
    and "\<And>i. q < i \<Longrightarrow> i < q + length w \<Longrightarrow> \<not> occurs_at old s i"
proof -
  from length_of_drop [OF d q] have len: "q + length w + length r = length s" .
  have nth: "s ! (q + i) = w ! i" if "i < length w" for i
    using nth_of_drop [OF d that] .
  have rest: "drop (q + length w) s = r" by (rule drop_of_drop [OF d])
  have right: "\<not> word_at s (q + length w)"
  proof (cases "r = []")
    case True
    with len show ?thesis by (simp add: word_at_def)
  next
    case False
    with r have "\<not> IsWordChar (hd r)" by simp
    moreover from False len have "q + length w < length s" by (cases r) auto
    then have "hd (drop (q + length w) s) = s ! (q + length w)" by (simp add: hd_drop_conv_nth)
    ultimately show ?thesis by (simp add: rest word_at_def)
  qed
  from w(1) have wlen: "Suc 0 \<le> length w" by (cases w) simp_all
  from w have w0: "IsWordChar (w ! 0)" and wl: "IsWordChar (w ! (length w - 1))"
    by (auto simp: list_all_length)
  from wlen len have qlt: "q < length s" by linarith
  have first: "word_at s q"
    using nth [of 0] w(1) wlen w0 qlt by (simp add: word_at_def)
  from wlen have idx: "q + (length w - 1) = q + length w - 1" by simp
  from wlen len have "q + length w - 1 < length s" by linarith
  moreover from w(1) have "length w - 1 < length w" by simp
  from nth [OF this] have "s ! (q + length w - 1) = w ! (length w - 1)"
    unfolding idx .
  ultimately have last: "word_at s (q + length w - 1)"
    using wl by (simp add: word_at_def)
  have bl: "word_boundary s q"
    using left first by (auto simp: word_boundary_def word_at_def)
  from wlen have "0 < q + length w" by linarith
  then have br: "word_boundary s (q + length w)"
    using right last by (simp add: word_boundary_def)
  show "occurs_at old s q \<longleftrightarrow> w = old"
  proof
    assume "w = old"
    with d len bl br show "occurs_at old s q" by (auto simp: occurs_at_def)
  next
    assume occ: "occurs_at old s q"
    then have t: "take (length old) (drop q s) = old" and b: "word_boundary s (q + length old)"
      and le: "q + length old \<le> length s"
      by (simp_all add: occurs_at_def)
    let ?rest = "drop (q + length old) s"
    have split: "drop q s = old @ ?rest"
      by (metis t append_take_drop_id drop_drop add.commute)
    from old(1) have olen: "Suc 0 \<le> length old" by (cases old) simp_all
    from old have ol: "IsWordChar (old ! (length old - 1))" by (auto simp: list_all_length)
    from olen have pos: "length old - 1 < length old" by simp
    from olen have oidx: "q + (length old - 1) = q + length old - 1" by simp
    from olen le have "q + length old - 1 < length s" by linarith
    moreover from nth_of_drop [OF split pos] have "s ! (q + length old - 1) = old ! (length old - 1)"
      unfolding oidx .
    ultimately have "word_at s (q + length old - 1)"
      using ol by (simp add: word_at_def)
    moreover from olen have "0 < q + length old" by linarith
    ultimately have nw: "\<not> word_at s (q + length old)"
      using b by (simp add: word_boundary_def)
    have "?rest = [] \<or> \<not> IsWordChar (hd ?rest)"
    proof (cases "?rest = []")
      case False
      then have "q + length old < length s" by simp
      then have "hd ?rest = s ! (q + length old)" by (simp add: hd_drop_conv_nth)
      with nw \<open>q + length old < length s\<close> show ?thesis by (simp add: word_at_def)
    qed simp
    from takeWhile_dropWhile_run(1) [OF old(2) this] takeWhile_dropWhile_run(1) [OF w(2) r]
    show "w = old" by (simp add: d [symmetric] split [symmetric])
  qed
  show "\<not> occurs_at old s i" if "q < i" and "i < q + length w" for i
  proof
    assume occ: "occurs_at old s i"
    from that have a: "s ! i = w ! (i - q)" and b: "s ! (i - 1) = w ! (i - 1 - q)"
      using nth [of "i - q"] nth [of "i - 1 - q"] by auto
    from that w(2) have "IsWordChar (w ! (i - q))" and "IsWordChar (w ! (i - 1 - q))"
      by (auto simp: list_all_length)
    with a b that len have "word_at s i" and "word_at s (i - 1)" by (auto simp: word_at_def)
    with that have "\<not> word_boundary s i" by (auto simp: word_boundary_def)
    with occ show False by (simp add: occurs_at_def)
  qed
qed

lemma replace_words_no_word:
  assumes "dropWhile (\<lambda>c. \<not> IsWordChar c) u = []"
  shows "replace_words old new u = u"
  by (subst replace_words.simps) (simp only: assms list.case)

lemma replace_words_word:
  "dropWhile (\<lambda>c. \<not> IsWordChar c) u = c # cs \<Longrightarrow>
    replace_words old new u
      = takeWhile (\<lambda>c. \<not> IsWordChar c) u
        @ (if takeWhile IsWordChar (c # cs) = old then new else takeWhile IsWordChar (c # cs))
        @ replace_words old new (dropWhile IsWordChar (c # cs))"
  by (subst replace_words.simps) (simp only: list.case)

lemma replaceAll_skip:
  assumes old: "old \<noteq> []" "list_all IsWordChar old"
    and repl: "\<And>a. occurs_at old s a \<Longrightarrow> repl (a, a + length old, [(1, a, a + length old)]) = new"
    and pq: "p \<le> q" and none: "\<forall>i. p \<le> i \<and> i < q \<longrightarrow> \<not> occurs_at old s i"
  shows "replaceAll s (word_regex old) repl p p buf
          = replaceAll s (word_regex old) repl q q (buf @ slice s p q)"
proof (cases "\<exists>i \<ge> q. occurs_at old s i")
  case False
  then have a: "\<forall>i \<ge> q. \<not> occurs_at old s i" by simp
  with none have b: "\<forall>i \<ge> p. \<not> occurs_at old s i" by (meson leI)
  have "slice s p q @ drop q s = drop p s"
    using pq unfolding slice_def
    by (metis append_take_drop_id drop_drop le_add_diff_inverse2)
  then show ?thesis
    by (simp add: replaceAll_none [OF old a] replaceAll_none [OF old b])
next
  case True
  define a0 where "a0 = (LEAST i. q \<le> i \<and> occurs_at old s i)"
  from True have "q \<le> a0 \<and> occurs_at old s a0"
    unfolding a0_def by (rule LeastI_ex)
  then have qa: "q \<le> a0" and occ: "occurs_at old s a0" by simp_all
  have least: "\<not> occurs_at old s i" if "q \<le> i \<and> i < a0" for i
    using that not_less_Least [of i "\<lambda>i. q \<le> i \<and> occurs_at old s i"] by (auto simp: a0_def)
  then have fq: "\<forall>i. q \<le> i \<and> i < a0 \<longrightarrow> \<not> occurs_at old s i" by blast
  with none have fp: "\<forall>i. p \<le> i \<and> i < a0 \<longrightarrow> \<not> occurs_at old s i" by (meson leI)
  from pq qa have pa: "p \<le> a0" by simp
  show ?thesis
    using replaceAll_first [where repl = repl and new = new, OF old pa occ fp repl [OF occ],
            where buf = buf]
      replaceAll_first [where repl = repl and new = new, OF old qa occ fq repl [OF occ],
            where buf = "buf @ slice s p q"]
    by (simp add: slice_slice [OF pq qa, symmetric])
qed

lemma replaceAll_replace_words:
  assumes old: "old \<noteq> []" "list_all IsWordChar old"
    and repl: "\<And>a. occurs_at old s a \<Longrightarrow> repl (a, a + length old, [(1, a, a + length old)]) = new"
  shows "p \<le> length s \<Longrightarrow> p = 0 \<or> p = length s \<or> \<not> IsWordChar (s ! p)
    \<Longrightarrow> replaceAll s (word_regex old) repl p p buf = buf @ replace_words old new (drop p s)"
proof (induction "length s - p" arbitrary: p buf rule: less_induct)
  case less
  define u where "u = drop p s"
  define sep where "sep = takeWhile (\<lambda>c. \<not> IsWordChar c) u"
  define u' where "u' = dropWhile (\<lambda>c. \<not> IsWordChar c) u"
  have u: "drop p s = sep @ u'" by (simp add: u_def sep_def u'_def)
  define q where "q = p + length sep"
  have sep_nw: "\<not> IsWordChar (s ! i)" if "p \<le> i" and "i < q" for i
  proof -
    from that have i: "i - p < length sep" by (simp add: q_def)
    from nth_of_drop [OF u i] that have "s ! i = sep ! (i - p)" by simp
    moreover from i have "sep ! (i - p) \<in> set sep" by simp
    then have "\<not> IsWordChar (sep ! (i - p))" unfolding sep_def by (auto dest: set_takeWhileD)
    ultimately show ?thesis by simp
  qed
  have sep_none: "\<forall>i. p \<le> i \<and> i < q \<longrightarrow> \<not> occurs_at old s i"
    using sep_nw occurs_at_word [OF old] by blast
  have du': "drop q s = u'" unfolding q_def by (rule drop_of_drop [OF u])
  from length_of_drop [OF u less.prems(1)] have len: "q + length u' = length s" by (simp add: q_def)
  show ?case
  proof (cases u')
    case Nil
    have "\<not> occurs_at old s i" if "p \<le> i" for i
    proof (cases "i < q")
      case True
      with that sep_none show ?thesis by simp
    next
      case False
      with Nil len have "length s \<le> i" by simp
      with occurs_at_word [OF old, of s i] show ?thesis by auto
    qed
    then have "replaceAll s (word_regex old) repl p p buf = buf @ drop p s"
      by (intro replaceAll_none [OF old]) simp
    moreover from Nil have "replace_words old new (drop p s) = drop p s"
      unfolding u'_def u_def by (rule replace_words_no_word)
    ultimately show ?thesis by simp
  next
    case (Cons c cs)
    define w where "w = takeWhile IsWordChar u'"
    define r where "r = dropWhile IsWordChar u'"
    have u'wr: "u' = w @ r" by (simp add: w_def r_def)
    from Cons have "u' \<noteq> []" by simp
    then have "\<not> (\<lambda>c. \<not> IsWordChar c) (hd u')" unfolding u'_def by (rule hd_dropWhile)
    then have "IsWordChar (hd u')" by simp
    with Cons have c: "IsWordChar c" by simp
    then have wne: "w \<noteq> []" by (simp add: w_def Cons)
    have wall: "list_all IsWordChar w"
      unfolding w_def list_all_iff by (auto dest: set_takeWhileD)
    have rnw: "r = [] \<or> \<not> IsWordChar (hd r)"
      unfolding r_def using hd_dropWhile [of IsWordChar u'] by blast
    have dq: "drop q s = w @ r" using du' u'wr by simp
    from len have ql: "q \<le> length s" by simp
    have left: "q = 0 \<or> \<not> IsWordChar (s ! (q - 1))"
    proof (cases "sep = []")
      case True
      then have qp: "q = p" by (simp add: q_def)
      from Cons len qp have "p < length s" by simp
      moreover from Cons du' qp \<open>p < length s\<close> have "s ! p = c"
        by (metis hd_drop_conv_nth list.sel(1))
      ultimately show ?thesis using less.prems(2) c qp by auto
    next
      case False
      then have "p \<le> q - 1" and "q - 1 < q" by (cases sep; simp add: q_def)+
      from sep_nw [OF this] show ?thesis by simp
    qed
    note run = occurs_at_run [OF old dq ql wne wall rnw left]
    define q' where "q' = q + length w"
    from wne have wlen: "Suc 0 \<le> length w" by (cases w) simp_all
    have dq': "drop q' s = r" unfolding q'_def by (rule drop_of_drop [OF dq])
    from length_of_drop [OF dq ql] have len': "q' + length r = length s" by (simp add: q'_def)
    then have q'l: "q' \<le> length s" by simp
    have next_ok: "q' = 0 \<or> q' = length s \<or> \<not> IsWordChar (s ! q')"
    proof (cases "r = []")
      case True
      with len' show ?thesis by simp
    next
      case False
      with len' have "q' < length s" by (cases r) auto
      with dq' have "hd r = s ! q'" by (metis hd_drop_conv_nth)
      with False rnw show ?thesis by simp
    qed
    from wlen have lt: "length s - q' < length s - p"
      using q'l by (simp add: q'_def q_def)
    note IH = less.hyps [OF lt q'l next_ok]
    from Cons have "dropWhile (\<lambda>c. \<not> IsWordChar c) (drop p s) = c # cs"
      by (simp add: u'_def u_def)
    from replace_words_word [OF this, of old new] Cons
    have replace_words_u: "replace_words old new (drop p s)
                    = sep @ (if w = old then new else w) @ replace_words old new r"
      by (simp add: sep_def u_def w_def r_def)
    have sl: "slice s p q = sep" unfolding q_def by (rule slice_of_drop [OF u])
    have sl': "slice s q q' = w" unfolding q'_def by (rule slice_of_drop [OF dq])
    have pq: "p \<le> q" by (simp add: q_def)
    have qq': "q \<le> q'" by (simp add: q'_def)
    show ?thesis
    proof (cases "w = old")
      case True
      with run(1) have occ: "occurs_at old s q" by simp
      from True have "q + length old = q'" by (simp add: q'_def)
      with replaceAll_first [where repl = repl and new = new, OF old pq occ sep_none repl [OF occ],
                             where buf = buf]
      have "replaceAll s (word_regex old) repl p p buf
              = replaceAll s (word_regex old) repl q' q' (buf @ slice s p q @ new)"
        by simp
      also have "\<dots> = (buf @ slice s p q @ new) @ replace_words old new (drop q' s)"
        by (rule IH)
      finally show ?thesis using True by (simp add: replace_words_u sl dq')
    next
      case False
      with run(1) have nq: "\<not> occurs_at old s q" by simp
      have none: "\<forall>i. p \<le> i \<and> i < q' \<longrightarrow> \<not> occurs_at old s i"
      proof (intro allI impI)
        fix i assume i: "p \<le> i \<and> i < q'"
        show "\<not> occurs_at old s i"
        proof (cases "i < q")
          case True
          with i sep_none show ?thesis by simp
        next
          case F: False
          show ?thesis
          proof (cases "i = q")
            case True
            with nq show ?thesis by simp
          next
            case False
            with F i have "q < i" and "i < q + length w" by (simp_all add: q'_def)
            then show ?thesis by (rule run(2))
          qed
        qed
      qed
      from pq qq' have pq': "p \<le> q'" by simp
      have "replaceAll s (word_regex old) repl p p buf
              = replaceAll s (word_regex old) repl q' q' (buf @ slice s p q')"
        by (rule replaceAll_skip [where repl = repl and new = new, OF old repl pq' none])
      also have "\<dots> = (buf @ slice s p q') @ replace_words old new (drop q' s)"
        by (rule IH)
      finally show ?thesis
        using False by (simp add: replace_words_u dq' slice_slice [OF pq qq', symmetric] sl sl')
    qed
  qed
qed

lemma MustCompile_word:
  assumes "old \<noteq> []" and "list_all IsWordChar old"
  shows "MustCompile rt ([backslash, CHR ''b'', CHR ''(''] @ old @ [CHR '')'', backslash, CHR ''b''])
          = Returns (Regexp (word_regex old) 1)"
  using Parse_word [OF assms] by (simp add: MustCompile_def word_pattern_def)

lemmas MustCompile_word' = MustCompile_word [simplified]

lemmas Parse_word' = Parse_word [unfolded word_pattern_def, simplified]

lemma group_text_at_match:
  assumes "occurs_at old s a"
  shows "group_text n s (a, a + length old, [(1, a, a + length old)]) num
          = group_text n old (0, length old, [(1, 0, length old)]) num"
proof -
  from assms have "slice s a (a + length old) = old" by (simp add: occurs_at_def slice_def)
  moreover have "slice old 0 (length old) = old" by (simp add: slice_def)
  ultimately show ?thesis by (simp add: group_text_def)
qed

lemma expand_group_text:
  assumes "\<And>num. group_text n s m num = group_text n s' m' num"
  shows "expand rt n template s m = expand rt n template s' m'"
proof (induction template rule: length_induct)
  case (1 template)
  show ?case
  proof (cases template)
    case Nil
    then show ?thesis by simp
  next
    case (Cons c t)
    have shorter: "expand rt n u s m = expand rt n u s' m'" if "length u \<le> length t" for u
      using 1 that by (simp add: Cons)
    show ?thesis
    proof (cases "extract_name rt t")
      case None
      then show ?thesis using shorter [of t] shorter [of "tl t"]
        by (cases "t = []") (simp_all add: Cons)
    next
      case (Some x)
      obtain name num rest where x: "x = (name, num, rest)" by (cases x)
      from Some x have "length rest \<le> length t" by (auto dest: extract_rest)
      from shorter [OF this] shorter [of t] shorter [of "tl t"] Some x assms [of num]
      show ?thesis by (cases "t = []") (simp_all add: Cons)
    qed
  qed
qed

lemma expand_at_match:
  "occurs_at old s a \<Longrightarrow>
    expand rt 1 new s (a, a + length old, [(1, a, a + length old)]) = expansion rt old new"
  unfolding expansion_def by (rule expand_group_text) (rule group_text_at_match)

lemma expansion_plain: "CHR ''$'' \<notin> set new \<Longrightarrow> expansion rt old new = new"
  by (simp add: expansion_def expand_plain)

lemma replace_word_expansion:
  assumes "old \<noteq> []" and "list_all IsWordChar old"
  shows "replace rt s old new = Returns (replace_words old (expansion rt old new) s)"
proof -
  have "replaceAll s (word_regex old) (\<lambda>m. expand rt 1 new s m) 0 0 []
          = [] @ replace_words old (expansion rt old new) (drop 0 s)"
    by (rule replaceAll_replace_words [OF assms]) (erule expand_at_match, simp_all)
  then show ?thesis
    by (simp add: replace_def MustCompile_word' [OF assms] ReplaceAllString_def)
qed

lemma replace_word:
  assumes "old \<noteq> []" and "list_all IsWordChar old" and "CHR ''$'' \<notin> set new"
  shows "replace rt s old new = Returns (replace_words old new s)"
  using replace_word_expansion [OF assms(1,2), of rt s new] expansion_plain [OF assms(3)] by simp

lemma replace_words_unchanged:
  assumes "old \<noteq> []" and "list_all IsWordChar old" and "\<not> has_whole_word_match old t"
  shows "replace_words old new t = t"
proof -
  from assms(3) have "find_match t (word_regex old) 0 = None"
    by (cases "find_match t (word_regex old) 0")
       (simp_all add: has_whole_word_match_def Parse_word' [OF assms(1,2)])
  with find_match_word [OF assms(1,2), of t 0] have none: "\<forall>i \<ge> 0. \<not> occurs_at old t i" by blast
  have "replaceAll t (word_regex old) (\<lambda>m. new) 0 0 [] = [] @ drop 0 t"
    by (rule replaceAll_none [OF assms(1,2) none])
  moreover have "replaceAll t (word_regex old) (\<lambda>m. new) 0 0 []
                  = [] @ replace_words old new (drop 0 t)"
    by (rule replaceAll_replace_words [OF assms(1,2)]) simp_all
  ultimately show ?thesis by simp
qed

lemma replace_words_sep:
  assumes "\<forall>c \<in> set a. \<not> IsWordChar c"
  shows "replace_words old new (a @ u) = a @ replace_words old new u"
proof -
  from assms have d: "dropWhile (\<lambda>c. \<not> IsWordChar c) (a @ u) = dropWhile (\<lambda>c. \<not> IsWordChar c) u"
    and t: "takeWhile (\<lambda>c. \<not> IsWordChar c) (a @ u) = a @ takeWhile (\<lambda>c. \<not> IsWordChar c) u"
    by (simp_all add: dropWhile_append2 takeWhile_append2)
  show ?thesis
  proof (cases "dropWhile (\<lambda>c. \<not> IsWordChar c) u")
    case Nil
    with d show ?thesis by (simp add: replace_words_no_word)
  next
    case (Cons c cs)
    with d have "dropWhile (\<lambda>c. \<not> IsWordChar c) (a @ u) = c # cs" by simp
    from replace_words_word [OF this, of old new] replace_words_word [OF Cons, of old new] show ?thesis
      by (simp add: t)
  qed
qed

lemma replace_words_append:
  assumes "b = [] \<or> \<not> IsWordChar (hd b)"
  shows "replace_words old new (a @ b) = replace_words old new a @ replace_words old new b"
proof (induction old new a rule: replace_words.induct)
  case (1 old new u)
  show ?case
  proof (cases "dropWhile (\<lambda>c. \<not> IsWordChar c) u")
    case Nil
    then have "\<forall>c \<in> set u. \<not> IsWordChar c" by (simp add: dropWhile_eq_Nil_conv)
    from replace_words_sep [OF this] Nil show ?thesis by (simp add: replace_words_no_word)
  next
    case (Cons c cs)
    define w where "w = takeWhile IsWordChar (c # cs)"
    define r where "r = dropWhile IsWordChar (c # cs)"
    have wr: "c # cs = w @ r" by (simp add: w_def r_def)
    have wall: "list_all IsWordChar w"
      unfolding w_def list_all_iff by (auto dest: set_takeWhileD)
    have "c \<in> set (dropWhile (\<lambda>c. \<not> IsWordChar c) u)" by (simp add: Cons)
    then have cu: "c \<in> set u" by (rule set_dropWhileD)
    from Cons have "dropWhile (\<lambda>c. \<not> IsWordChar c) u \<noteq> []" by simp
    then have "\<not> (\<lambda>c. \<not> IsWordChar c) (hd (dropWhile (\<lambda>c. \<not> IsWordChar c) u))"
      by (rule hd_dropWhile)
    with Cons have c: "IsWordChar c" by simp
    from cu c have d: "dropWhile (\<lambda>c. \<not> IsWordChar c) (u @ b) = c # (cs @ b)"
      and t: "takeWhile (\<lambda>c. \<not> IsWordChar c) (u @ b) = takeWhile (\<lambda>c. \<not> IsWordChar c) u"
      by (simp_all add: dropWhile_append1 takeWhile_append1 Cons)
    have rb: "r @ b = [] \<or> \<not> IsWordChar (hd (r @ b))"
    proof (cases "r = []")
      case True
      with assms show ?thesis by simp
    next
      case False
      then have "\<not> IsWordChar (hd r)" unfolding r_def by (rule hd_dropWhile)
      with False show ?thesis by simp
    qed
    have e: "c # (cs @ b) = w @ (r @ b)" using wr by simp
    have tw: "takeWhile IsWordChar (c # (cs @ b)) = w"
      unfolding e by (rule takeWhile_dropWhile_run(1) [OF wall rb])
    have dw: "dropWhile IsWordChar (c # (cs @ b)) = r @ b"
      unfolding e by (rule takeWhile_dropWhile_run(2) [OF wall rb])
    from "1.IH" [OF Cons] have IH: "replace_words old new (r @ b) = replace_words old new r @ replace_words old new b"
      by (simp add: r_def)
    have "replace_words old new (u @ b)
            = takeWhile (\<lambda>c. \<not> IsWordChar c) u @ (if w = old then new else w)
              @ replace_words old new (r @ b)"
      using replace_words_word [OF d, of old new] by (simp only: t tw dw)
    moreover have "replace_words old new u
            = takeWhile (\<lambda>c. \<not> IsWordChar c) u @ (if w = old then new else w)
              @ replace_words old new r"
      using replace_words_word [OF Cons, of old new] by (simp only: w_def r_def)
    ultimately show ?thesis by (simp add: IH)
  qed
qed

lemma replace_words_start:
  assumes "u = [] \<or> \<not> IsWordChar (hd u)"
  shows "replace_words old new u = [] \<or> \<not> IsWordChar (hd (replace_words old new u))"
proof (cases u)
  case Nil
  then show ?thesis by (simp add: replace_words_no_word)
next
  case (Cons c t)
  with assms have c: "\<not> IsWordChar c" by simp
  show ?thesis
  proof (cases "dropWhile (\<lambda>c. \<not> IsWordChar c) u")
    case Nil
    with Cons c show ?thesis by (simp add: replace_words_no_word)
  next
    case (Cons d ds)
    from replace_words_word [OF this, of old new] \<open>u = c # t\<close> c show ?thesis by simp
  qed
qed

lemma replace_words_word_alone:
  assumes "w \<noteq> []" and "list_all IsWordChar w" and "w \<noteq> old"
  shows "replace_words old new w = w"
proof -
  from assms(1) obtain c cs where w: "w = c # cs" by (cases w) auto
  with assms(2) have c: "IsWordChar c" by simp
  from assms(2) have all: "\<forall>x \<in> set w. IsWordChar x" by (simp add: list_all_iff)
  from w c have d: "dropWhile (\<lambda>c. \<not> IsWordChar c) w = c # cs" by simp
  from w c have t0: "takeWhile (\<lambda>c. \<not> IsWordChar c) w = []" by simp
  from all have tw: "takeWhile IsWordChar w = w" and dw: "dropWhile IsWordChar w = []"
    by (simp_all add: takeWhile_eq_all_conv dropWhile_eq_Nil_conv)
  have "replace_words old new w
          = takeWhile (\<lambda>c. \<not> IsWordChar c) w
            @ (if takeWhile IsWordChar w = old then new else takeWhile IsWordChar w)
            @ replace_words old new (dropWhile IsWordChar w)"
    using replace_words_word [OF d, of old new] unfolding w [symmetric] .
  with assms(3) show ?thesis by (simp add: t0 tw dw replace_words_no_word)
qed

lemma replace_words_idem:
  assumes "replace_words old new new = new"
  shows "replace_words old new (replace_words old new u) = replace_words old new u"
  using assms
proof (induction old new u rule: replace_words.induct)
  case (1 old new u)
  show ?case
  proof (cases "dropWhile (\<lambda>c. \<not> IsWordChar c) u")
    case Nil
    then show ?thesis by (simp add: replace_words_no_word)
  next
    case (Cons c cs)
    define sep where "sep = takeWhile (\<lambda>c. \<not> IsWordChar c) u"
    define w where "w = takeWhile IsWordChar (c # cs)"
    define r where "r = dropWhile IsWordChar (c # cs)"
    define X where "X = (if w = old then new else w)"
    from Cons have "dropWhile (\<lambda>c. \<not> IsWordChar c) u \<noteq> []" by simp
    then have "\<not> (\<lambda>c. \<not> IsWordChar c) (hd (dropWhile (\<lambda>c. \<not> IsWordChar c) u))"
      by (rule hd_dropWhile)
    with Cons have c: "IsWordChar c" by simp
    then have wne: "w \<noteq> []" by (simp add: w_def)
    have wall: "list_all IsWordChar w"
      unfolding w_def list_all_iff by (auto dest: set_takeWhileD)
    have sep: "\<forall>c \<in> set sep. \<not> IsWordChar c"
      unfolding sep_def by (auto dest: set_takeWhileD)
    have r: "r = [] \<or> \<not> IsWordChar (hd r)"
      unfolding r_def using hd_dropWhile [of IsWordChar "c # cs"] by blast
    have eq: "replace_words old new u = sep @ X @ replace_words old new r"
      using replace_words_word [OF Cons, of old new] by (simp add: sep_def w_def r_def X_def)
    have X: "replace_words old new X = X"
      using "1.prems" replace_words_word_alone [OF wne wall] by (simp add: X_def)
    from "1.IH" [OF Cons "1.prems"] have IH: "replace_words old new (replace_words old new r) = replace_words old new r"
      by (simp add: r_def)
    have "replace_words old new (sep @ X @ replace_words old new r) = sep @ replace_words old new (X @ replace_words old new r)"
      by (rule replace_words_sep [OF sep])
    also have "replace_words old new (X @ replace_words old new r) = replace_words old new X @ replace_words old new (replace_words old new r)"
      by (rule replace_words_append [OF replace_words_start [OF r]])
    finally show ?thesis by (simp add: eq X IH)
  qed
qed

text \<open>
  C6, as stated, fails: \<^verbatim>\<open>replace\<close> can match inside a larger word. With
  \<open>old = "typ)|(zzz"\<close> the pattern is \<^verbatim>\<open>\b(typ)|(zzz)\b\<close>, whose first alternative has
  no boundary at its end, and \<^verbatim>\<open>typical\<close> becomes \<^verbatim>\<open>Xical\<close>. And the pattern's
  boundaries are those of ASCII words, so that a letter beyond ASCII ends a word: in
  the seven bytes of the French word for a first name (\<^verbatim>\<open>pr\<close>, the two bytes
  \<^verbatim>\<open>0xC3 0xA9\<close> of the letter e with an acute accent, \<^verbatim>\<open>nom\<close>) the part \<^verbatim>\<open>nom\<close> is
  replaced.
\<close>

theorem replace_matches_inside_word:
  "replace test_runtime ''typical'' ''typ)|(zzz'' ''X'' = Returns ''Xical''
   \<and> replace test_runtime
        [CHR ''p'', CHR ''r'', CHR 0xC3, CHR 0xA9, CHR ''n'', CHR ''o'', CHR ''m''] ''nom'' ''X''
       = Returns [CHR ''p'', CHR ''r'', CHR 0xC3, CHR 0xA9, CHR ''X'']"
  by code_simp

text \<open>
  C6, amended. When \<open>old\<close> is a single ASCII word (one or more ASCII letters, digits or
  underscores), \<^verbatim>\<open>replace\<close> never matches inside a larger run of such characters: it
  cuts the text into maximal runs of ASCII word characters and the text between them,
  and replaces exactly the runs that equal \<open>old\<close>, each by what the replacement expands
  to (the replacement itself when it has no \<^verbatim>\<open>$\<close>). Replacing \<^verbatim>\<open>typ\<close> by \<^verbatim>\<open>type\<close> in
  \<^verbatim>\<open>what if I typ the word typical\<close> gives \<^verbatim>\<open>what if I type the word typical\<close>: the
  \<^verbatim>\<open>typ\<close> inside \<^verbatim>\<open>typical\<close> stays.
\<close>

theorem replace_typ_leaves_typical:
  "replace rt ''what if I typ the word typical'' ''typ'' ''type''
     = Returns ''what if I type the word typical''
   \<and> (old \<noteq> [] \<and> list_all IsWordChar old
        \<longrightarrow> replace rt s old new = Returns (replace_words old (expansion rt old new) s)
            \<and> (CHR ''$'' \<notin> set new \<longrightarrow> expansion rt old new = new))"
proof -
  have word: "''typ'' \<noteq> []" "list_all IsWordChar ''typ''" by code_simp+
  have "replace_words ''typ'' ''type'' ''what if I typ the word typical''
          = ''what if I type the word typical''"
    by code_simp
  with replace_word [OF word, of "''type''" rt "''what if I typ the word typical''"]
  have "replace rt ''what if I typ the word typical'' ''typ'' ''type''
          = Returns ''what if I type the word typical''"
    by simp
  with replace_word_expansion [of old rt s new] expansion_plain [of new rt old]
  show ?thesis by blast
qed

theorem replace_typ_leaves_typical_witness:
  "''typ'' \<noteq> [] \<and> list_all IsWordChar ''typ'' \<and> CHR ''$'' \<notin> set ''type''
   \<and> expansion test_runtime ''typ'' ''type'' = ''type''
   \<and> replace_words ''typ'' ''type'' ''a typ, typical'' = ''a type, typical''
   \<and> replace test_runtime ''a typ, typical'' ''typ'' ''type'' = Returns ''a type, typical''"
proof -
  have a: "''typ'' \<noteq> []" and d: "CHR ''$'' \<notin> set ''type''" by simp_all
  have b: "list_all IsWordChar ''typ''" by code_simp
  have e: "replace_words ''typ'' ''type'' ''a typ, typical'' = ''a type, typical''"
    by code_simp
  note t = replace_typ_leaves_typical
             [where old = "''typ''" and new = "''type''" and s = "''a typ, typical''"
                and rt = test_runtime]
  from t a b d have x: "expansion test_runtime ''typ'' ''type'' = ''type''" by blast
  from t a b have "replace test_runtime ''a typ, typical'' ''typ'' ''type''
      = Returns (replace_words ''typ'' (expansion test_runtime ''typ'' ''type'') ''a typ, typical'')"
    by blast
  with x e have f: "replace test_runtime ''a typ, typical'' ''typ'' ''type''
      = Returns ''a type, typical''"
    by simp
  from a b d x e f show ?thesis by (intro conjI)
qed

text \<open>
  C7, as stated, fails, in two ways. \<^verbatim>\<open>a\<close> contains no whole-word occurrence of
  \<^verbatim>\<open>a b\<close>, but replacing \<^verbatim>\<open>a b\<close> by \<^verbatim>\<open>a\<close> in \<^verbatim>\<open>a b b\<close> gives \<^verbatim>\<open>a b\<close>, where the
  replacement and the text after it form a new occurrence, and replacing again gives
  \<^verbatim>\<open>a\<close>. And \<^verbatim>\<open>$1 b\<close> contains no occurrence of \<^verbatim>\<open>a\<close>, but \<^verbatim>\<open>$1\<close> in a replacement
  stands for the matched text: replacing \<^verbatim>\<open>a\<close> by \<^verbatim>\<open>$1 b\<close> in \<^verbatim>\<open>a\<close> gives \<^verbatim>\<open>a b\<close>, and
  again \<^verbatim>\<open>a b b\<close>.
\<close>

theorem replace_twice_differs:
  "(\<not> has_whole_word_match ''a b'' ''a''
    \<and> replace test_runtime ''a b b'' ''a b'' ''a'' = Returns ''a b''
    \<and> replace test_runtime ''a b'' ''a b'' ''a'' = Returns ''a'')
   \<and> (\<not> has_whole_word_match ''a'' ''$1 b''
    \<and> replace test_runtime ''a'' ''a'' ''$1 b'' = Returns ''a b''
    \<and> replace test_runtime ''a b'' ''a'' ''$1 b'' = Returns ''a b b'')"
  by code_simp

text \<open>
  C7, amended. When \<open>old\<close> is a single word (one or more ASCII letters, digits or
  underscores) and \<open>new\<close> contains no \<^verbatim>\<open>$\<close> and no whole-word occurrence of \<open>old\<close>,
  \<^verbatim>\<open>replace\<close> is idempotent on every text: \<^verbatim>\<open>replace(s, old, new)\<close> returns a text,
  and replacing in that text again returns it unchanged.
\<close>

theorem replace_idempotent_for_words:
  assumes "old \<noteq> []" and "list_all IsWordChar old"
    and "CHR ''$'' \<notin> set new" and "\<not> has_whole_word_match old new"
  shows "\<exists>t. replace rt s old new = Returns t \<and> replace rt t old new = Returns t"
proof -
  note word = assms(1,2)
  have "replace_words old new new = new" by (rule replace_words_unchanged [OF word assms(4)])
  then have "replace_words old new (replace_words old new s) = replace_words old new s" by (rule replace_words_idem)
  with replace_word [OF word assms(3), of rt s] replace_word [OF word assms(3), of rt "replace_words old new s"]
  show ?thesis by simp
qed

theorem replace_idempotent_for_words_witness:
  "''typ'' \<noteq> [] \<and> list_all IsWordChar ''typ''
   \<and> CHR ''$'' \<notin> set ''type'' \<and> \<not> has_whole_word_match ''typ'' ''type''
   \<and> replace test_runtime ''what if I typ the word typical'' ''typ'' ''type''
       = Returns ''what if I type the word typical''
   \<and> replace test_runtime ''what if I type the word typical'' ''typ'' ''type''
       = Returns ''what if I type the word typical''"
proof -
  have a: "''typ'' \<noteq> []" and d: "CHR ''$'' \<notin> set ''type''"
    by simp_all
  have b: "list_all IsWordChar ''typ''" by code_simp
  have e: "\<not> has_whole_word_match ''typ'' ''type''" by code_simp
  have f: "replace test_runtime ''what if I typ the word typical'' ''typ'' ''type''
            = Returns ''what if I type the word typical''"
    by code_simp
  from replace_idempotent_for_words
         [OF a b d e, of test_runtime "''what if I typ the word typical''"] f
  have g: "replace test_runtime ''what if I type the word typical'' ''typ'' ''type''
            = Returns ''what if I type the word typical''"
    by auto
  from a b d e f g show ?thesis by (intro conjI)
qed

subsection \<open>The command parser\<close>

lemma Split_no_sep: "sep \<notin> set s \<Longrightarrow> Split s sep = [s]"
  by (induction s) auto

lemma Split_append: "sep \<notin> set a \<Longrightarrow> Split (a @ sep # b) sep = a # Split b sep"
  by (induction a) auto

lemma TrimPrefix_append: "TrimPrefix (pre @ s) pre = s"
  by (simp add: TrimPrefix_def HasPrefix_def)

text \<open>
  C4, as stated, fails: the parser trims white space around the text after the
  prefix, so \<^verbatim>\<open>s/ a/b\<close> with \<open>old = " a"\<close> yields \<^verbatim>\<open>a\<close> and \<^verbatim>\<open>b\<close>.
\<close>

theorem parser_trims_old:
  "'' a'' \<noteq> [] \<and> ''b'' \<noteq> [] \<and> CHR ''/'' \<notin> set '' a'' \<and> CHR ''/'' \<notin> set ''b''
   \<and> splitAndValidateInput (''s/'' @ '' a'' @ ''/'' @ ''b'') = Inr [''a'', ''b'']
   \<and> splitAndValidateInput (''s/'' @ '' a'' @ ''/'' @ ''b'') \<noteq> Inr ['' a'', ''b'']"
  by code_simp

text \<open>
  C4, amended. For non-empty \<open>old\<close> and \<open>new\<close> without \<^verbatim>\<open>/\<close>, such that the text
  \<^verbatim>\<open>old/new\<close> has no white space at its start or end (trimming leaves it as it is),
  parsing \<^verbatim>\<open>s/old/new\<close> succeeds and yields exactly \<open>old\<close> and \<open>new\<close>.
\<close>

theorem parser_yields_old_and_new:
  assumes "old \<noteq> []" and "new \<noteq> []" and "CHR ''/'' \<notin> set old" and "CHR ''/'' \<notin> set new"
    and "TrimSpace (old @ ''/'' @ new) = old @ ''/'' @ new"
  shows "splitAndValidateInput (''s/'' @ old @ ''/'' @ new) = Inr [old, new]"
proof -
  have "TrimPrefix (''s/'' @ old @ ''/'' @ new) ''s/'' = old @ ''/'' @ new"
    by (rule TrimPrefix_append)
  moreover have "Split (old @ ''/'' @ new) (CHR ''/'') = [old, new]"
    using assms(3,4) by (simp add: Split_append Split_no_sep)
  ultimately show ?thesis
    using assms(1,2,5) by (simp add: splitAndValidateInput_def Let_def)
qed

theorem parser_yields_old_and_new_witness:
  "''bee'' \<noteq> [] \<and> ''be'' \<noteq> [] \<and> CHR ''/'' \<notin> set ''bee'' \<and> CHR ''/'' \<notin> set ''be''
   \<and> TrimSpace (''bee'' @ ''/'' @ ''be'') = ''bee'' @ ''/'' @ ''be''
   \<and> splitAndValidateInput (''s/'' @ ''bee'' @ ''/'' @ ''be'') = Inr [''bee'', ''be'']"
proof -
  have a: "''bee'' \<noteq> []" and b: "''be'' \<noteq> []" by simp_all
  have c: "CHR ''/'' \<notin> set ''bee''" and d: "CHR ''/'' \<notin> set ''be''" by simp_all
  have e: "TrimSpace (''bee'' @ ''/'' @ ''be'') = ''bee'' @ ''/'' @ ''be''" by code_simp
  from a b c d e parser_yields_old_and_new [OF a b c d e] show ?thesis by (intro conjI)
qed

lemma indexFunc_all: "list_all f (runes (drop i s)) \<Longrightarrow> indexFunc s f False i = None"
proof (induction s f "False" i rule: indexFunc.induct)
  case (1 s f i)
  show ?case
  proof (cases "i < length s")
    case True
    then have ne: "drop i s \<noteq> []" by simp
    let ?d = "DecodeRuneInString (drop i s)"
    from ne "1.prems" have f: "f (fst ?d)" and rest: "list_all f (runes (drop (i + snd ?d) s))"
      by (simp_all add: runes.simps [of "drop i s"] add.commute)
    from f have "indexFunc s f False i = indexFunc s f False (i + snd ?d)"
      using True by (simp add: indexFunc.simps [of s f False i])
    also from "1.hyps" [OF True _ rest] f have "\<dots> = None" by simp
    finally show ?thesis .
  next
    case False
    then show ?thesis by (simp add: indexFunc.simps [of s f False i])
  qed
qed

lemma TrimSpace_only_space: "list_all IsSpace (runes s) \<Longrightarrow> TrimSpace s = []"
proof -
  assume "list_all IsSpace (runes s)"
  then have "indexFunc s IsSpace False 0 = None" using indexFunc_all [of IsSpace 0 s] by simp
  then have "TrimLeftFunc s IsSpace = []" by (simp add: TrimLeftFunc_def)
  moreover have "TrimRightFunc [] IsSpace = []"
    by (simp add: TrimRightFunc_def split: option.splits)
  ultimately show ?thesis by (simp add: TrimSpace_def TrimFunc_def)
qed

text \<open>
  C8. Parsing fails for \<^verbatim>\<open>s/\<close>, \<^verbatim>\<open>s//\<close> and \<^verbatim>\<open>s/bad\<close>, and for every message of
  which only white space is left when the prefix is stripped. In general the parser
  fails in exactly these cases: the trimmed remainder is empty, or it splits into
  fewer than two segments, or the first segment is empty, or the second is.
\<close>

theorem parser_rejects:
  "splitAndValidateInput ''s/'' = Inl ''No input''
   \<and> splitAndValidateInput ''s//'' = Inl ''Bad user input''
   \<and> splitAndValidateInput ''s/bad'' = Inl ''Bad user input''
   \<and> (list_all IsSpace (runes (TrimPrefix m ''s/'')) \<longrightarrow> splitAndValidateInput m = Inl ''No input'')
   \<and> (isl (splitAndValidateInput m) \<longleftrightarrow>
        (let input = TrimSpace (TrimPrefix m ''s/''); strs = Split input (CHR ''/'')
         in input = [] \<or> length strs < 2 \<or> strs ! 0 = [] \<or> strs ! 1 = []))"
proof -
  have a: "splitAndValidateInput ''s/'' = Inl ''No input''" by code_simp
  have b: "splitAndValidateInput ''s//'' = Inl ''Bad user input''" by code_simp
  have c: "splitAndValidateInput ''s/bad'' = Inl ''Bad user input''" by code_simp
  have d: "list_all IsSpace (runes (TrimPrefix m ''s/''))
            \<longrightarrow> splitAndValidateInput m = Inl ''No input''"
    by (simp add: splitAndValidateInput_def TrimSpace_only_space)
  have e: "isl (splitAndValidateInput m) \<longleftrightarrow>
        (let input = TrimSpace (TrimPrefix m ''s/''); strs = Split input (CHR ''/'')
         in input = [] \<or> length strs < 2 \<or> strs ! 0 = [] \<or> strs ! 1 = [])"
    by (simp add: splitAndValidateInput_def Let_def less_Suc_eq_0_disj)
  from a b c d e show ?thesis by (intro conjI)
qed

theorem parser_rejects_witness:
  "list_all IsSpace (runes (TrimPrefix [CHR ''s'', CHR ''/'', CHR '' '', CHR 0x09, CHR 0xC2, CHR 0xA0]
                              ''s/''))
   \<and> splitAndValidateInput [CHR ''s'', CHR ''/'', CHR '' '', CHR 0x09, CHR 0xC2, CHR 0xA0]
       = Inl ''No input''"
proof -
  have a: "list_all IsSpace
             (runes (TrimPrefix [CHR ''s'', CHR ''/'', CHR '' '', CHR 0x09, CHR 0xC2, CHR 0xA0]
                       ''s/''))"
    by code_simp
  from parser_rejects [of "[CHR ''s'', CHR ''/'', CHR '' '', CHR 0x09, CHR 0xC2, CHR 0xA0]"] a
  have "splitAndValidateInput [CHR ''s'', CHR ''/'', CHR '' '', CHR 0x09, CHR 0xC2, CHR 0xA0]
          = Inl ''No input''"
    by blast
  with a show ?thesis by (intro conjI)
qed

subsection \<open>Outcomes of a command\<close>

text \<open>
  The runs of the hook on a command, one lemma for each way through
  \<^verbatim>\<open>MessageWillBePosted\<close>: the result and all calls to the host, in order.
\<close>

lemma dismiss_post_nonempty: "dismiss_post \<noteq> []"
  by (simp add: dismiss_post_def)

lemma getLastPost_calls:
  "snd (getLastPost rt api user teamId rootId) = [Call_GetPostThread rootId]
   \<or> snd (getLastPost rt api user teamId rootId)
        = [Call_SearchPostsInTeam teamId (ParseSearchParams (''from:'' @ Username user) 0)]"
  by (simp add: getLastPost_def Let_def split: sum.splits run.splits)

lemma getLastPost_no_update:
  "Call_UpdatePost p \<notin> set (snd (getLastPost rt api user teamId rootId))"
  using getLastPost_calls [of rt api user teamId rootId] by auto

lemma getLastPost_no_notice:
  "Call_SendEphemeralPost u n \<notin> set (snd (getLastPost rt api user teamId rootId))"
  using getLastPost_calls [of rt api user teamId rootId] by auto

lemma outcome_parse_failure:
  assumes "HasPrefix (TrimSpace (Message post)) ''s/''"
    and "isl (splitAndValidateInput (TrimSpace (Message post)))"
  shows "MessageWillBePosted rt api post
          = (Returns (None, dismiss_post),
             [Call_SendEphemeralPost (UserId post)
                (notice rt post (''Invalid command format. '' @ usage))])"
  using assms by (auto simp: MessageWillBePosted_def Let_def notice_def split: sum.splits)

lemma outcome_no_user:
  assumes "HasPrefix (TrimSpace (Message post)) ''s/''"
    and "\<not> isl (splitAndValidateInput (TrimSpace (Message post)))"
    and "isl (GetUser api (UserId post))"
  shows "MessageWillBePosted rt api post = (Returns (None, []), [Call_GetUser (UserId post)])"
  using assms by (auto simp: MessageWillBePosted_def Let_def split: sum.splits)

lemma outcome_no_channel:
  assumes "HasPrefix (TrimSpace (Message post)) ''s/''"
    and "\<not> isl (splitAndValidateInput (TrimSpace (Message post)))"
    and "\<not> isl (GetUser api (UserId post))"
    and "isl (GetChannel api (ChannelId post))"
  shows "MessageWillBePosted rt api post = (Returns (None, []), lookups post)"
  using assms by (auto simp: MessageWillBePosted_def Let_def lookups_def split: sum.splits)

lemma outcome_no_target:
  assumes "HasPrefix (TrimSpace (Message post)) ''s/''"
    and "splitAndValidateInput (TrimSpace (Message post)) = Inr strs"
    and "GetUser api (UserId post) = Inr user" and "GetChannel api (ChannelId post) = Inr ch"
    and "getLastPost rt api user (TeamId ch) (RootId post) = (Returns (found, errId), search)"
    and "errId \<noteq> []"
  shows "MessageWillBePosted rt api post
          = (Returns (None, dismiss_post),
             lookups post @ search
             @ [Call_SendEphemeralPost (User.Id user) (notice rt post errId)])"
  using assms by (simp add: MessageWillBePosted_def Let_def lookups_def notice_def)

lemma outcome_target:
  assumes "HasPrefix (TrimSpace (Message post)) ''s/''"
    and "splitAndValidateInput (TrimSpace (Message post)) = Inr strs"
    and "GetUser api (UserId post) = Inr user" and "GetChannel api (ChannelId post) = Inr ch"
    and "getLastPost rt api user (TeamId ch) (RootId post) = (Returns (Some lastPost, []), search)"
  shows "MessageWillBePosted rt api post
          = (case replace rt (Message lastPost) (strs ! 0) (strs ! 1) of
               Panics p \<Rightarrow> (Panics p, lookups post @ search)
             | Returns message \<Rightarrow>
                 (case UpdatePost api (lastPost\<lparr>Message := message\<rparr>) of
                    Inl appErr \<Rightarrow>
                      (Returns (None, []),
                       lookups post @ search @ [Call_UpdatePost (lastPost\<lparr>Message := message\<rparr>)])
                  | Inr updated \<Rightarrow>
                      (Returns (None, dismiss_post),
                       lookups post @ search
                       @ [Call_UpdatePost (lastPost\<lparr>Message := message\<rparr>),
                          Call_SendEphemeralPost (User.Id user)
                            (notice rt post
                               (''s/ Replaced '' @ [CHR 0x22] @ strs ! 0 @ [CHR 0x22] @ '' for ''
                                @ [CHR 0x22] @ strs ! 1 @ [CHR 0x22]))])))"
  using assms
  by (simp add: MessageWillBePosted_def Let_def lookups_def notice_def
           split: run.splits sum.splits)

lemma outcome_no_update:
  assumes "HasPrefix (TrimSpace (Message post)) ''s/''"
    and "Call_UpdatePost p \<in> set (snd (MessageWillBePosted rt api post))"
    and "isl (UpdatePost api p)"
  shows "fst (MessageWillBePosted rt api post) = Returns (None, [])"
  using assms getLastPost_no_update
  by (auto simp: MessageWillBePosted_def Let_def
           split: sum.splits run.splits option.splits prod.splits if_splits)

lemma outcome_notice:
  assumes "HasPrefix (TrimSpace (Message post)) ''s/''"
  shows "fst (MessageWillBePosted rt api post) = Returns (None, dismiss_post)
          \<longleftrightarrow> (\<exists>u n. Call_SendEphemeralPost u n \<in> set (snd (MessageWillBePosted rt api post)))"
  using assms getLastPost_no_notice dismiss_post_nonempty
  by (auto simp: MessageWillBePosted_def Let_def
           split: sum.splits run.splits option.splits prod.splits if_splits)

lemma outcome_kinds:
  "(\<exists>p. fst (MessageWillBePosted rt api post) = Panics p)
   \<or> fst (MessageWillBePosted rt api post) = Returns (None, dismiss_post)
   \<or> fst (MessageWillBePosted rt api post) = Returns (None, [])"
  by (auto simp: MessageWillBePosted_def Let_def
           split: sum.splits run.splits option.splits prod.splits if_splits)

text \<open>
  C9. A command with more than one delimiter after the prefix still parses when its
  first two segments are not empty: \<^verbatim>\<open>s/old/new/rest\<close> yields \<open>old\<close>, \<open>new\<close> and the
  segments of \<open>rest\<close>. The hook uses the first segment as \<open>old\<close> and the second as \<open>new\<close>:
  once the target post is found, it is the text of that post with \<open>old\<close> replaced by
  \<open>new\<close> that the hook hands to \<^verbatim>\<open>UpdatePost\<close>, and the confirmation quotes \<open>old\<close> and
  \<open>new\<close>. The segments after them are ignored: they appear in no call and in no
  result, and two commands that agree on their first two segments have the same
  effect.
\<close>

theorem trailing_segments_ignored:
  "(let strs = Split (TrimSpace (TrimPrefix m ''s/'')) (CHR ''/'')
    in 2 < length strs \<and> strs ! 0 \<noteq> [] \<and> strs ! 1 \<noteq> [] \<longrightarrow> splitAndValidateInput m = Inr strs)
   \<and> (old \<noteq> [] \<and> new \<noteq> [] \<and> CHR ''/'' \<notin> set old \<and> CHR ''/'' \<notin> set new
        \<and> TrimSpace (old @ ''/'' @ new @ ''/'' @ rest) = old @ ''/'' @ new @ ''/'' @ rest
      \<longrightarrow> splitAndValidateInput (''s/'' @ old @ ''/'' @ new @ ''/'' @ rest)
            = Inr (old # new # Split rest (CHR ''/'')))
   \<and> (HasPrefix (TrimSpace (Message post)) ''s/''
        \<and> splitAndValidateInput (TrimSpace (Message post)) = Inr (old' # new' # others)
        \<and> GetUser api (UserId post) = Inr user \<and> GetChannel api (ChannelId post) = Inr ch
        \<and> getLastPost rt api user (TeamId ch) (RootId post) = (Returns (Some lastPost, []), search)
      \<longrightarrow> (replace rt (Message lastPost) old' new' = Returns message
             \<and> \<not> isl (UpdatePost api (lastPost\<lparr>Message := message\<rparr>))
           \<longrightarrow> MessageWillBePosted rt api post
                 = (Returns (None, dismiss_post),
                    lookups post @ search
                    @ [Call_UpdatePost (lastPost\<lparr>Message := message\<rparr>),
                       Call_SendEphemeralPost (User.Id user)
                         (notice rt post
                            (''s/ Replaced '' @ [CHR 0x22] @ old' @ [CHR 0x22] @ '' for ''
                             @ [CHR 0x22] @ new' @ [CHR 0x22]))]))
          \<and> (replace rt (Message lastPost) old' new' = Returns message
               \<and> isl (UpdatePost api (lastPost\<lparr>Message := message\<rparr>))
             \<longrightarrow> MessageWillBePosted rt api post
                   = (Returns (None, []),
                      lookups post @ search @ [Call_UpdatePost (lastPost\<lparr>Message := message\<rparr>)]))
          \<and> (replace rt (Message lastPost) old' new' = Panics e
             \<longrightarrow> MessageWillBePosted rt api post = (Panics e, lookups post @ search)))
   \<and> (HasPrefix (TrimSpace (Message post)) ''s/'' \<and> HasPrefix (TrimSpace m') ''s/''
        \<and> splitAndValidateInput (TrimSpace (Message post)) = Inr strs
        \<and> splitAndValidateInput (TrimSpace m') = Inr strs'
        \<and> strs ! 0 = strs' ! 0 \<and> strs ! 1 = strs' ! 1
      \<longrightarrow> MessageWillBePosted rt api post = MessageWillBePosted rt api (post\<lparr>Message := m'\<rparr>))"
proof -
  have parse: "let strs = Split (TrimSpace (TrimPrefix m ''s/'')) (CHR ''/'')
    in 2 < length strs \<and> strs ! 0 \<noteq> [] \<and> strs ! 1 \<noteq> [] \<longrightarrow> splitAndValidateInput m = Inr strs"
    by (cases "TrimSpace (TrimPrefix m ''s/'')")
       (auto simp: splitAndValidateInput_def Let_def)
  have segments: "splitAndValidateInput (''s/'' @ old @ ''/'' @ new @ ''/'' @ rest)
            = Inr (old # new # Split rest (CHR ''/''))"
    if "old \<noteq> []" and "new \<noteq> []" and "CHR ''/'' \<notin> set old" and "CHR ''/'' \<notin> set new"
      and "TrimSpace (old @ ''/'' @ new @ ''/'' @ rest) = old @ ''/'' @ new @ ''/'' @ rest"
  proof -
    have "TrimPrefix (''s/'' @ old @ ''/'' @ new @ ''/'' @ rest) ''s/''
            = old @ ''/'' @ new @ ''/'' @ rest"
      by (rule TrimPrefix_append)
    moreover have "Split (old @ ''/'' @ new @ ''/'' @ rest) (CHR ''/'')
            = old # new # Split rest (CHR ''/'')"
      using that(3,4) by (simp add: Split_append)
    ultimately show ?thesis
      using that(1,2,5) by (simp add: splitAndValidateInput_def Let_def)
  qed
  have used: "(replace rt (Message lastPost) old' new' = Returns message
             \<and> \<not> isl (UpdatePost api (lastPost\<lparr>Message := message\<rparr>))
           \<longrightarrow> MessageWillBePosted rt api post
                 = (Returns (None, dismiss_post),
                    lookups post @ search
                    @ [Call_UpdatePost (lastPost\<lparr>Message := message\<rparr>),
                       Call_SendEphemeralPost (User.Id user)
                         (notice rt post
                            (''s/ Replaced '' @ [CHR 0x22] @ old' @ [CHR 0x22] @ '' for ''
                             @ [CHR 0x22] @ new' @ [CHR 0x22]))]))
          \<and> (replace rt (Message lastPost) old' new' = Returns message
               \<and> isl (UpdatePost api (lastPost\<lparr>Message := message\<rparr>))
             \<longrightarrow> MessageWillBePosted rt api post
                   = (Returns (None, []),
                      lookups post @ search @ [Call_UpdatePost (lastPost\<lparr>Message := message\<rparr>)]))
          \<and> (replace rt (Message lastPost) old' new' = Panics e
             \<longrightarrow> MessageWillBePosted rt api post = (Panics e, lookups post @ search))"
    if "HasPrefix (TrimSpace (Message post)) ''s/''"
      and "splitAndValidateInput (TrimSpace (Message post)) = Inr (old' # new' # others)"
      and "GetUser api (UserId post) = Inr user" and "GetChannel api (ChannelId post) = Inr ch"
      and "getLastPost rt api user (TeamId ch) (RootId post) = (Returns (Some lastPost, []), search)"
    using outcome_target [OF that]
    by (cases "UpdatePost api (lastPost\<lparr>Message := message\<rparr>)") simp_all
  have same: "HasPrefix (TrimSpace (Message post)) ''s/'' \<and> HasPrefix (TrimSpace m') ''s/''
        \<and> splitAndValidateInput (TrimSpace (Message post)) = Inr strs
        \<and> splitAndValidateInput (TrimSpace m') = Inr strs'
        \<and> strs ! 0 = strs' ! 0 \<and> strs ! 1 = strs' ! 1
      \<longrightarrow> MessageWillBePosted rt api post = MessageWillBePosted rt api (post\<lparr>Message := m'\<rparr>)"
    by (simp add: MessageWillBePosted_def Let_def
             cong: sum.case_cong run.case_cong option.case_cong prod.case_cong if_cong)
  from parse segments used same show ?thesis by blast
qed

theorem trailing_segments_ignored_witness:
  "splitAndValidateInput ''s/a/b/c'' = Inr [''a'', ''b'', ''c'']
   \<and> (''a'' \<noteq> [] \<and> ''b'' \<noteq> [] \<and> CHR ''/'' \<notin> set ''a'' \<and> CHR ''/'' \<notin> set ''b''
      \<and> TrimSpace (''a'' @ ''/'' @ ''b'' @ ''/'' @ ''c/d'') = ''a'' @ ''/'' @ ''b'' @ ''/'' @ ''c/d''
      \<and> splitAndValidateInput (''s/'' @ ''a'' @ ''/'' @ ''b'' @ ''/'' @ ''c/d'')
          = Inr (''a'' # ''b'' # Split ''c/d'' (CHR ''/'')))
   \<and> (HasPrefix (TrimSpace (Message (test_post ''123'' ''s/bee/be/more/text''))) ''s/''
      \<and> splitAndValidateInput (TrimSpace (Message (test_post ''123'' ''s/bee/be/more/text'')))
          = Inr [''bee'', ''be'', ''more'', ''text'']
      \<and> replace test_runtime ''message to bee replaced'' ''bee'' ''be''
          = Returns ''message to be replaced''
      \<and> MessageWillBePosted test_runtime (test_api example_posts)
            (test_post ''123'' ''s/bee/be/more/text'')
          = (Returns (None, dismiss_post),
             [Call_GetUser ''testUserId'', Call_GetChannel ''testChannelId'',
              Call_GetPostThread ''123'',
              Call_UpdatePost (stored_post ''p2'' 7 ''testUserId'' ''message to be replaced''),
              Call_SendEphemeralPost ''testUserId''
                (notice test_runtime (test_post ''123'' ''s/bee/be/more/text'')
                   (''s/ Replaced '' @ [CHR 0x22] @ ''bee'' @ [CHR 0x22] @ '' for ''
                    @ [CHR 0x22] @ ''be'' @ [CHR 0x22]))])
      \<and> MessageWillBePosted test_runtime no_update_api (test_post ''123'' ''s/bee/be/more/text'')
          = (Returns (None, []),
             [Call_GetUser ''testUserId'', Call_GetChannel ''testChannelId'',
              Call_GetPostThread ''123'',
              Call_UpdatePost (stored_post ''p2'' 7 ''testUserId'' ''message to be replaced'')]))
   \<and> (splitAndValidateInput (TrimSpace (Message (test_post ''123'' ''s/(/x/y'')))
          = Inr [''('', ''x'', ''y'']
      \<and> replace test_runtime ''message to bee replaced'' ''('' ''x''
          = Panics (Regexp_Compile ErrMissingParen)
      \<and> MessageWillBePosted test_runtime (test_api example_posts) (test_post ''123'' ''s/(/x/y'')
          = (Panics (Regexp_Compile ErrMissingParen),
             [Call_GetUser ''testUserId'', Call_GetChannel ''testChannelId'',
              Call_GetPostThread ''123'']))
   \<and> (HasPrefix (TrimSpace ''s/bee/be'') ''s/''
      \<and> splitAndValidateInput (TrimSpace ''s/bee/be'') = Inr [''bee'', ''be'']
      \<and> MessageWillBePosted test_runtime (test_api example_posts)
            (test_post ''123'' ''s/bee/be/more/text'')
          = MessageWillBePosted test_runtime (test_api example_posts)
              ((test_post ''123'' ''s/bee/be/more/text'')\<lparr>Message := ''s/bee/be''\<rparr>))"
proof -
  let ?post = "test_post ''123'' ''s/bee/be/more/text''"
  let ?paren = "test_post ''123'' ''s/(/x/y''"
  let ?user = "\<lparr>User.Id = ''testUserId'', Username = ''test''\<rparr>"
  let ?ch = "\<lparr>TeamId = ''testTeamId''\<rparr>"
  let ?p2 = "stored_post ''p2'' 7 ''testUserId'' ''message to bee replaced''"
  have segs: "Split (TrimSpace (TrimPrefix ''s/a/b/c'' ''s/'')) (CHR ''/'') = [''a'', ''b'', ''c'']"
    by code_simp
  from trailing_segments_ignored [where m = "''s/a/b/c''"]
  have a: "splitAndValidateInput ''s/a/b/c'' = Inr [''a'', ''b'', ''c'']"
    by (simp add: segs)
  have b1: "''a'' \<noteq> []" "''b'' \<noteq> []" "CHR ''/'' \<notin> set ''a''" "CHR ''/'' \<notin> set ''b''"
    by simp_all
  have b2: "TrimSpace (''a'' @ ''/'' @ ''b'' @ ''/'' @ ''c/d'') = ''a'' @ ''/'' @ ''b'' @ ''/'' @ ''c/d''"
    by code_simp
  from trailing_segments_ignored [where old = "''a''" and new = "''b''" and rest = "''c/d''"] b1 b2
  have b: "splitAndValidateInput (''s/'' @ ''a'' @ ''/'' @ ''b'' @ ''/'' @ ''c/d'')
          = Inr (''a'' # ''b'' # Split ''c/d'' (CHR ''/''))"
    by blast
  have prefix: "HasPrefix (TrimSpace (Message ?post)) ''s/''" by code_simp
  have parsed: "splitAndValidateInput (TrimSpace (Message ?post)) = Inr [''bee'', ''be'', ''more'', ''text'']"
    by code_simp
  have user: "GetUser (test_api example_posts) (UserId ?post) = Inr ?user"
    and ch: "GetChannel (test_api example_posts) (ChannelId ?post) = Inr ?ch"
    and target: "getLastPost test_runtime (test_api example_posts) ?user (TeamId ?ch) (RootId ?post)
                  = (Returns (Some ?p2, []), [Call_GetPostThread ''123''])"
    and updated: "\<not> isl (UpdatePost (test_api example_posts)
                          (?p2\<lparr>Message := ''message to be replaced''\<rparr>))"
    by code_simp+
  have user': "GetUser no_update_api (UserId ?post) = Inr ?user"
    and ch': "GetChannel no_update_api (ChannelId ?post) = Inr ?ch"
    and target': "getLastPost test_runtime no_update_api ?user (TeamId ?ch) (RootId ?post)
                  = (Returns (Some ?p2, []), [Call_GetPostThread ''123''])"
    and refused: "isl (UpdatePost no_update_api (?p2\<lparr>Message := ''message to be replaced''\<rparr>))"
    by code_simp+
  have replaced: "replace test_runtime (Message ?p2) ''bee'' ''be'' = Returns ''message to be replaced''"
    by code_simp
  have shape: "?p2\<lparr>Message := ''message to be replaced''\<rparr>
                = stored_post ''p2'' 7 ''testUserId'' ''message to be replaced''"
    and ids: "lookups ?post = [Call_GetUser ''testUserId'', Call_GetChannel ''testChannelId'']"
      "User.Id ?user = ''testUserId''" "Message ?p2 = ''message to bee replaced''"
    by (simp_all add: stored_post_def lookups_def test_post_def)
  from trailing_segments_ignored
         [where post = ?post and api = "test_api example_posts" and rt = test_runtime
            and old' = "''bee''" and new' = "''be''" and others = "[''more'', ''text'']"
            and user = ?user and ch = ?ch and lastPost = ?p2
            and search = "[Call_GetPostThread ''123'']"
            and message = "''message to be replaced''"]
       prefix parsed user ch target replaced updated
  have c: "MessageWillBePosted test_runtime (test_api example_posts) ?post
          = (Returns (None, dismiss_post),
             lookups ?post @ [Call_GetPostThread ''123'']
             @ [Call_UpdatePost (?p2\<lparr>Message := ''message to be replaced''\<rparr>),
                Call_SendEphemeralPost (User.Id ?user)
                  (notice test_runtime ?post
                     (''s/ Replaced '' @ [CHR 0x22] @ ''bee'' @ [CHR 0x22] @ '' for ''
                      @ [CHR 0x22] @ ''be'' @ [CHR 0x22]))])"
    by blast
  from trailing_segments_ignored
         [where post = ?post and api = no_update_api and rt = test_runtime
            and old' = "''bee''" and new' = "''be''" and others = "[''more'', ''text'']"
            and user = ?user and ch = ?ch and lastPost = ?p2
            and search = "[Call_GetPostThread ''123'']"
            and message = "''message to be replaced''"]
       prefix parsed user' ch' target' replaced refused
  have d: "MessageWillBePosted test_runtime no_update_api ?post
          = (Returns (None, []),
             lookups ?post @ [Call_GetPostThread ''123'']
             @ [Call_UpdatePost (?p2\<lparr>Message := ''message to be replaced''\<rparr>)])"
    by blast
  have prefix_paren: "HasPrefix (TrimSpace (Message ?paren)) ''s/''" by code_simp
  have parsed_paren: "splitAndValidateInput (TrimSpace (Message ?paren)) = Inr [''('', ''x'', ''y'']"
    by code_simp
  have user_paren: "GetUser (test_api example_posts) (UserId ?paren) = Inr ?user"
    and ch_paren: "GetChannel (test_api example_posts) (ChannelId ?paren) = Inr ?ch"
    and target_paren:
      "getLastPost test_runtime (test_api example_posts) ?user (TeamId ?ch) (RootId ?paren)
        = (Returns (Some ?p2, []), [Call_GetPostThread ''123''])"
    by code_simp+
  have panics: "replace test_runtime (Message ?p2) ''('' ''x'' = Panics (Regexp_Compile ErrMissingParen)"
    by code_simp
  from trailing_segments_ignored
         [where post = ?paren and api = "test_api example_posts" and rt = test_runtime
            and old' = "''(''" and new' = "''x''" and others = "[''y'']"
            and user = ?user and ch = ?ch and lastPost = ?p2
            and search = "[Call_GetPostThread ''123'']"
            and e = "Regexp_Compile ErrMissingParen"]
       prefix_paren parsed_paren user_paren ch_paren target_paren panics
  have e: "MessageWillBePosted test_runtime (test_api example_posts) ?paren
          = (Panics (Regexp_Compile ErrMissingParen), lookups ?paren @ [Call_GetPostThread ''123''])"
    by blast
  have ids_paren: "lookups ?paren = [Call_GetUser ''testUserId'', Call_GetChannel ''testChannelId'']"
    by (simp add: lookups_def test_post_def)
  have prefix': "HasPrefix (TrimSpace ''s/bee/be'') ''s/''" by code_simp
  have parsed': "splitAndValidateInput (TrimSpace ''s/bee/be'') = Inr [''bee'', ''be'']" by code_simp
  from trailing_segments_ignored
         [where post = ?post and m' = "''s/bee/be''"
            and strs = "[''bee'', ''be'', ''more'', ''text'']" and strs' = "[''bee'', ''be'']"
            and rt = test_runtime and api = "test_api example_posts"]
       prefix prefix' parsed parsed'
  have f: "MessageWillBePosted test_runtime (test_api example_posts) ?post
       = MessageWillBePosted test_runtime (test_api example_posts) (?post\<lparr>Message := ''s/bee/be''\<rparr>)"
    by simp
  from a b1 b2 b prefix parsed replaced c d parsed_paren panics e prefix' parsed' f
  show ?thesis
    unfolding shape ids ids_paren by simp
qed

text \<open>
  C1, as stated, fails: when the host cannot find the author or the channel, or
  refuses the update, the hook returns the empty reason, which lets the command
  message through; the failed call is the last one it makes.
\<close>

theorem failures_let_message_through:
  "HasPrefix (TrimSpace (Message (test_post [] ''s/bee/be''))) ''s/''
   \<and> MessageWillBePosted test_runtime no_user_api (test_post [] ''s/bee/be'')
       = (Returns (None, []), [Call_GetUser ''testUserId''])
   \<and> MessageWillBePosted test_runtime no_channel_api (test_post [] ''s/bee/be'')
       = (Returns (None, []), [Call_GetUser ''testUserId'', Call_GetChannel ''testChannelId''])
   \<and> MessageWillBePosted test_runtime no_update_api (test_post ''123'' ''s/bee/be'')
       = (Returns (None, []),
          [Call_GetUser ''testUserId'', Call_GetChannel ''testChannelId'',
           Call_GetPostThread ''123'',
           Call_UpdatePost (stored_post ''p2'' 7 ''testUserId'' ''message to be replaced'')])"
  by code_simp

text \<open>
  C1, amended. For a message whose trimmed text starts with \<^verbatim>\<open>s/\<close>, the runs of the
  hook are these, each with all its calls to the host:
  \<^item> the command does not parse: the usage notice is sent and the message is dismissed;
  \<^item> the author lookup or the channel lookup fails: the message is let through (nil
    post, empty reason), and nothing is called after the failed lookup;
  \<^item> the lookup of the target post returns a text (the error of the host, or the
    notice that there is no previous post): that text is sent as a notice and the
    message is dismissed;
  \<^item> the target is found and \<^verbatim>\<open>replace\<close> returns: the update is called with the
    replaced text; when it fails the message is let through and nothing is called
    after it; when it succeeds the confirmation is sent and the message is dismissed;
  \<^item> the target is found and \<^verbatim>\<open>replace\<close> panics: the panic ends the run after the
    lookups.

  So a failed update always leaves the message let through, the message is dismissed
  exactly when a notice has been sent, and the hook never returns a post.
\<close>

theorem command_outcomes:
  assumes "HasPrefix (TrimSpace (Message post)) ''s/''"
  shows "(isl (splitAndValidateInput (TrimSpace (Message post)))
            \<longrightarrow> MessageWillBePosted rt api post
                  = (Returns (None, dismiss_post),
                     [Call_SendEphemeralPost (UserId post)
                        (notice rt post (''Invalid command format. '' @ usage))]))
    \<and> (\<not> isl (splitAndValidateInput (TrimSpace (Message post))) \<and> isl (GetUser api (UserId post))
            \<longrightarrow> MessageWillBePosted rt api post = (Returns (None, []), [Call_GetUser (UserId post)]))
    \<and> (\<not> isl (splitAndValidateInput (TrimSpace (Message post))) \<and> \<not> isl (GetUser api (UserId post))
          \<and> isl (GetChannel api (ChannelId post))
            \<longrightarrow> MessageWillBePosted rt api post = (Returns (None, []), lookups post))
    \<and> (splitAndValidateInput (TrimSpace (Message post)) = Inr strs
          \<and> GetUser api (UserId post) = Inr user \<and> GetChannel api (ChannelId post) = Inr ch
          \<and> getLastPost rt api user (TeamId ch) (RootId post) = (Returns (found, errId), search)
          \<and> errId \<noteq> []
            \<longrightarrow> MessageWillBePosted rt api post
                  = (Returns (None, dismiss_post),
                     lookups post @ search
                     @ [Call_SendEphemeralPost (User.Id user) (notice rt post errId)]))
    \<and> (splitAndValidateInput (TrimSpace (Message post)) = Inr strs
          \<and> GetUser api (UserId post) = Inr user \<and> GetChannel api (ChannelId post) = Inr ch
          \<and> getLastPost rt api user (TeamId ch) (RootId post) = (Returns (Some lastPost, []), search)
          \<and> replace rt (Message lastPost) (strs ! 0) (strs ! 1) = Returns message
          \<and> isl (UpdatePost api (lastPost\<lparr>Message := message\<rparr>))
            \<longrightarrow> MessageWillBePosted rt api post
                  = (Returns (None, []),
                     lookups post @ search @ [Call_UpdatePost (lastPost\<lparr>Message := message\<rparr>)]))
    \<and> (splitAndValidateInput (TrimSpace (Message post)) = Inr strs
          \<and> GetUser api (UserId post) = Inr user \<and> GetChannel api (ChannelId post) = Inr ch
          \<and> getLastPost rt api user (TeamId ch) (RootId post) = (Returns (Some lastPost, []), search)
          \<and> replace rt (Message lastPost) (strs ! 0) (strs ! 1) = Returns message
          \<and> \<not> isl (UpdatePost api (lastPost\<lparr>Message := message\<rparr>))
            \<longrightarrow> MessageWillBePosted rt api post
                  = (Returns (None, dismiss_post),
                     lookups post @ search
                     @ [Call_UpdatePost (lastPost\<lparr>Message := message\<rparr>),
                        Call_SendEphemeralPost (User.Id user)
                          (notice rt post
                             (''s/ Replaced '' @ [CHR 0x22] @ strs ! 0 @ [CHR 0x22] @ '' for ''
                              @ [CHR 0x22] @ strs ! 1 @ [CHR 0x22]))]))
    \<and> (splitAndValidateInput (TrimSpace (Message post)) = Inr strs
          \<and> GetUser api (UserId post) = Inr user \<and> GetChannel api (ChannelId post) = Inr ch
          \<and> getLastPost rt api user (TeamId ch) (RootId post) = (Returns (Some lastPost, []), search)
          \<and> replace rt (Message lastPost) (strs ! 0) (strs ! 1) = Panics e
            \<longrightarrow> MessageWillBePosted rt api post = (Panics e, lookups post @ search))
    \<and> (\<forall>p. Call_UpdatePost p \<in> set (snd (MessageWillBePosted rt api post)) \<and> isl (UpdatePost api p)
            \<longrightarrow> fst (MessageWillBePosted rt api post) = Returns (None, []))
    \<and> (fst (MessageWillBePosted rt api post) = Returns (None, dismiss_post)
          \<longleftrightarrow> (\<exists>u n. Call_SendEphemeralPost u n \<in> set (snd (MessageWillBePosted rt api post))))
    \<and> ((\<exists>p. fst (MessageWillBePosted rt api post) = Panics p)
        \<or> fst (MessageWillBePosted rt api post) = Returns (None, dismiss_post)
        \<or> fst (MessageWillBePosted rt api post) = Returns (None, []))"
proof -
  have target:
    "(replace rt (Message lastPost) (strs ! 0) (strs ! 1) = Returns message
        \<and> isl (UpdatePost api (lastPost\<lparr>Message := message\<rparr>))
      \<longrightarrow> MessageWillBePosted rt api post
            = (Returns (None, []),
               lookups post @ search @ [Call_UpdatePost (lastPost\<lparr>Message := message\<rparr>)]))
     \<and> (replace rt (Message lastPost) (strs ! 0) (strs ! 1) = Returns message
        \<and> \<not> isl (UpdatePost api (lastPost\<lparr>Message := message\<rparr>))
      \<longrightarrow> MessageWillBePosted rt api post
            = (Returns (None, dismiss_post),
               lookups post @ search
               @ [Call_UpdatePost (lastPost\<lparr>Message := message\<rparr>),
                  Call_SendEphemeralPost (User.Id user)
                    (notice rt post
                       (''s/ Replaced '' @ [CHR 0x22] @ strs ! 0 @ [CHR 0x22] @ '' for ''
                        @ [CHR 0x22] @ strs ! 1 @ [CHR 0x22]))]))
     \<and> (replace rt (Message lastPost) (strs ! 0) (strs ! 1) = Panics e
      \<longrightarrow> MessageWillBePosted rt api post = (Panics e, lookups post @ search))"
    if "splitAndValidateInput (TrimSpace (Message post)) = Inr strs"
      and "GetUser api (UserId post) = Inr user" and "GetChannel api (ChannelId post) = Inr ch"
      and "getLastPost rt api user (TeamId ch) (RootId post) = (Returns (Some lastPost, []), search)"
    using outcome_target [OF assms that]
    by (cases "UpdatePost api (lastPost\<lparr>Message := message\<rparr>)") simp_all
  show ?thesis
    using outcome_parse_failure [OF assms, where rt = rt and api = api]
      outcome_no_user [OF assms, where rt = rt and api = api]
      outcome_no_channel [OF assms, where rt = rt and api = api]
      outcome_no_target [OF assms, where rt = rt and api = api and strs = strs and user = user
                           and ch = ch and found = found and errId = errId and search = search]
      target outcome_no_update [OF assms, where rt = rt and api = api]
      outcome_notice [OF assms, where rt = rt and api = api]
      outcome_kinds [where rt = rt and api = api and post = post]
    by blast
qed

theorem command_outcomes_witness:
  "(HasPrefix (TrimSpace (Message (test_post [] ''s/bad''))) ''s/''
    \<and> isl (splitAndValidateInput (TrimSpace (Message (test_post [] ''s/bad''))))
    \<and> MessageWillBePosted test_runtime (test_api example_posts) (test_post [] ''s/bad'')
        = (Returns (None, dismiss_post),
           [Call_SendEphemeralPost ''testUserId''
              (notice test_runtime (test_post [] ''s/bad'') (''Invalid command format. '' @ usage))]))
   \<and> (HasPrefix (TrimSpace (Message (test_post [] ''s/bee/be''))) ''s/''
    \<and> \<not> isl (splitAndValidateInput (TrimSpace (Message (test_post [] ''s/bee/be''))))
    \<and> isl (GetUser no_user_api (UserId (test_post [] ''s/bee/be'')))
    \<and> MessageWillBePosted test_runtime no_user_api (test_post [] ''s/bee/be'')
        = (Returns (None, []), [Call_GetUser ''testUserId'']))
   \<and> (\<not> isl (GetUser no_channel_api (UserId (test_post [] ''s/bee/be'')))
    \<and> isl (GetChannel no_channel_api (ChannelId (test_post [] ''s/bee/be'')))
    \<and> MessageWillBePosted test_runtime no_channel_api (test_post [] ''s/bee/be'')
        = (Returns (None, []), [Call_GetUser ''testUserId'', Call_GetChannel ''testChannelId'']))
   \<and> (getLastPost test_runtime no_search_api \<lparr>User.Id = ''testUserId'', Username = ''test''\<rparr>
          ''testTeamId'' []
        = (Returns (None, ''SearchPostsInTeam: failed, ''),
           [Call_SearchPostsInTeam ''testTeamId'' (ParseSearchParams ''from:test'' 0)])
    \<and> MessageWillBePosted test_runtime no_search_api (test_post [] ''s/bee/be'')
        = (Returns (None, dismiss_post),
           [Call_GetUser ''testUserId'', Call_GetChannel ''testChannelId'',
            Call_SearchPostsInTeam ''testTeamId'' (ParseSearchParams ''from:test'' 0),
            Call_SendEphemeralPost ''testUserId''
              (notice test_runtime (test_post [] ''s/bee/be'') ''SearchPostsInTeam: failed, '')]))
   \<and> (getLastPost test_runtime (test_api []) \<lparr>User.Id = ''testUserId'', Username = ''test''\<rparr>
          ''testTeamId'' []
        = (Returns (None, noPostsFoundError),
           [Call_SearchPostsInTeam ''testTeamId'' (ParseSearchParams ''from:test'' 0)])
    \<and> MessageWillBePosted test_runtime (test_api []) (test_post [] ''s/bee/be'')
        = (Returns (None, dismiss_post),
           [Call_GetUser ''testUserId'', Call_GetChannel ''testChannelId'',
            Call_SearchPostsInTeam ''testTeamId'' (ParseSearchParams ''from:test'' 0),
            Call_SendEphemeralPost ''testUserId''
              (notice test_runtime (test_post [] ''s/bee/be'') noPostsFoundError)]))
   \<and> (replace test_runtime ''message to bee replaced'' ''bee'' ''be''
        = Returns ''message to be replaced''
    \<and> isl (UpdatePost no_update_api
              (stored_post ''p2'' 7 ''testUserId'' ''message to be replaced''))
    \<and> MessageWillBePosted test_runtime no_update_api (test_post ''123'' ''s/bee/be'')
        = (Returns (None, []),
           [Call_GetUser ''testUserId'', Call_GetChannel ''testChannelId'',
            Call_GetPostThread ''123'',
            Call_UpdatePost (stored_post ''p2'' 7 ''testUserId'' ''message to be replaced'')]))
   \<and> (\<not> isl (UpdatePost (test_api example_posts)
                (stored_post ''p2'' 7 ''testUserId'' ''message to be replaced''))
    \<and> MessageWillBePosted test_runtime (test_api example_posts) (test_post ''123'' ''s/bee/be'')
        = (Returns (None, dismiss_post),
           [Call_GetUser ''testUserId'', Call_GetChannel ''testChannelId'',
            Call_GetPostThread ''123'',
            Call_UpdatePost (stored_post ''p2'' 7 ''testUserId'' ''message to be replaced''),
            Call_SendEphemeralPost ''testUserId''
              (notice test_runtime (test_post ''123'' ''s/bee/be'')
                 (''s/ Replaced '' @ [CHR 0x22] @ ''bee'' @ [CHR 0x22] @ '' for ''
                  @ [CHR 0x22] @ ''be'' @ [CHR 0x22]))]))
   \<and> (splitAndValidateInput (TrimSpace (Message (test_post ''123'' ''s/[b]ee/be'')))
        = Inr [''[b]ee'', ''be'']
    \<and> replace class_runtime ''message to bee replaced'' ''[b]ee'' ''be''
        = Returns ''message to be replaced''
    \<and> MessageWillBePosted class_runtime (test_api example_posts) (test_post ''123'' ''s/[b]ee/be'')
        = (Returns (None, dismiss_post),
           [Call_GetUser ''testUserId'', Call_GetChannel ''testChannelId'',
            Call_GetPostThread ''123'',
            Call_UpdatePost (stored_post ''p2'' 7 ''testUserId'' ''message to be replaced''),
            Call_SendEphemeralPost ''testUserId''
              (notice class_runtime (test_post ''123'' ''s/[b]ee/be'')
                 (''s/ Replaced '' @ [CHR 0x22] @ ''[b]ee'' @ [CHR 0x22] @ '' for ''
                  @ [CHR 0x22] @ ''be'' @ [CHR 0x22]))]))
   \<and> (replace test_runtime ''message to bee replaced'' ''('' ''x''
        = Panics (Regexp_Compile ErrMissingParen)
    \<and> MessageWillBePosted test_runtime (test_api example_posts) (test_post ''123'' ''s/(/x'')
        = (Panics (Regexp_Compile ErrMissingParen),
           [Call_GetUser ''testUserId'', Call_GetChannel ''testChannelId'',
            Call_GetPostThread ''123'']))
   \<and> (Call_UpdatePost (stored_post ''p1'' 5 ''other'' ''first'')
          \<in> set (snd (MessageWillBePosted test_runtime no_update_api (test_post [] ''s/bee/be'')))
    \<and> isl (UpdatePost no_update_api (stored_post ''p1'' 5 ''other'' ''first''))
    \<and> fst (MessageWillBePosted test_runtime no_update_api (test_post [] ''s/bee/be''))
        = Returns (None, []))
   \<and> ((\<exists>u n. Call_SendEphemeralPost u n
          \<in> set (snd (MessageWillBePosted test_runtime (test_api example_posts)
                         (test_post [] ''s/bee/be''))))
    \<and> fst (MessageWillBePosted test_runtime (test_api example_posts) (test_post [] ''s/bee/be''))
        = Returns (None, dismiss_post))"
proof -
  let ?bad = "test_post [] ''s/bad''"
  let ?cmd = "test_post [] ''s/bee/be''"
  let ?reply = "test_post ''123'' ''s/bee/be''"
  let ?bracket = "test_post ''123'' ''s/[b]ee/be''"
  let ?paren = "test_post ''123'' ''s/(/x''"
  let ?user = "\<lparr>User.Id = ''testUserId'', Username = ''test''\<rparr>"
  let ?ch = "\<lparr>TeamId = ''testTeamId''\<rparr>"
  let ?p2 = "stored_post ''p2'' 7 ''testUserId'' ''message to bee replaced''"
  let ?search = "[Call_SearchPostsInTeam ''testTeamId'' (ParseSearchParams ''from:test'' 0)]"
  let ?thread = "[Call_GetPostThread ''123'']"
  have ids: "lookups ?cmd = [Call_GetUser ''testUserId'', Call_GetChannel ''testChannelId'']"
    "lookups ?reply = [Call_GetUser ''testUserId'', Call_GetChannel ''testChannelId'']"
    "lookups ?bracket = [Call_GetUser ''testUserId'', Call_GetChannel ''testChannelId'']"
    "lookups ?paren = [Call_GetUser ''testUserId'', Call_GetChannel ''testChannelId'']"
    "UserId ?bad = ''testUserId''" "UserId ?cmd = ''testUserId''"
    "User.Id ?user = ''testUserId''" "TeamId ?ch = ''testTeamId''"
    "RootId ?cmd = []" "Message ?p2 = ''message to bee replaced''"
    "?p2\<lparr>Message := ''message to be replaced''\<rparr>
       = stored_post ''p2'' 7 ''testUserId'' ''message to be replaced''"
    by (simp_all add: stored_post_def lookups_def test_post_def)
  have bad: "HasPrefix (TrimSpace (Message ?bad)) ''s/''"
    and bad_fails: "isl (splitAndValidateInput (TrimSpace (Message ?bad)))"
    and cmd: "HasPrefix (TrimSpace (Message ?cmd)) ''s/''"
    and parses: "\<not> isl (splitAndValidateInput (TrimSpace (Message ?cmd)))"
    and parsed: "splitAndValidateInput (TrimSpace (Message ?cmd)) = Inr [''bee'', ''be'']"
    and reply: "HasPrefix (TrimSpace (Message ?reply)) ''s/''"
    and parsed_reply: "splitAndValidateInput (TrimSpace (Message ?reply)) = Inr [''bee'', ''be'']"
    and bracket: "HasPrefix (TrimSpace (Message ?bracket)) ''s/''"
    and parsed_bracket: "splitAndValidateInput (TrimSpace (Message ?bracket)) = Inr [''[b]ee'', ''be'']"
    and paren: "HasPrefix (TrimSpace (Message ?paren)) ''s/''"
    and parsed_paren: "splitAndValidateInput (TrimSpace (Message ?paren)) = Inr [''('', ''x'']"
    by code_simp+
  have no_user: "isl (GetUser no_user_api (UserId ?cmd))"
    and user: "\<not> isl (GetUser no_channel_api (UserId ?cmd))"
    and no_channel: "isl (GetChannel no_channel_api (ChannelId ?cmd))"
    by code_simp+
  have user_s: "GetUser no_search_api (UserId ?cmd) = Inr ?user"
    and ch_s: "GetChannel no_search_api (ChannelId ?cmd) = Inr ?ch"
    and target_s: "getLastPost test_runtime no_search_api ?user ''testTeamId'' []
                    = (Returns (None, ''SearchPostsInTeam: failed, ''), ?search)"
    and user_e: "GetUser (test_api []) (UserId ?cmd) = Inr ?user"
    and ch_e: "GetChannel (test_api []) (ChannelId ?cmd) = Inr ?ch"
    and target_e: "getLastPost test_runtime (test_api []) ?user ''testTeamId'' []
                    = (Returns (None, noPostsFoundError), ?search)"
    by code_simp+
  have failed: "''SearchPostsInTeam: failed, '' \<noteq> []" and none: "noPostsFoundError \<noteq> []"
    by (simp_all add: noPostsFoundError_def)
  have user_u: "GetUser no_update_api (UserId ?reply) = Inr ?user"
    and ch_u: "GetChannel no_update_api (ChannelId ?reply) = Inr ?ch"
    and target_u: "getLastPost test_runtime no_update_api ?user (TeamId ?ch) (RootId ?reply)
                    = (Returns (Some ?p2, []), ?thread)"
    and refused: "isl (UpdatePost no_update_api
                         (stored_post ''p2'' 7 ''testUserId'' ''message to be replaced''))"
    by code_simp+
  have user_t: "GetUser (test_api example_posts) (UserId ?reply) = Inr ?user"
    and ch_t: "GetChannel (test_api example_posts) (ChannelId ?reply) = Inr ?ch"
    and target_t: "getLastPost test_runtime (test_api example_posts) ?user (TeamId ?ch) (RootId ?reply)
                    = (Returns (Some ?p2, []), ?thread)"
    and updated: "\<not> isl (UpdatePost (test_api example_posts)
                            (stored_post ''p2'' 7 ''testUserId'' ''message to be replaced''))"
    by code_simp+
  have replaced: "replace test_runtime ''message to bee replaced'' ''bee'' ''be''
                    = Returns ''message to be replaced''"
    and replaced_bracket: "replace class_runtime ''message to bee replaced'' ''[b]ee'' ''be''
                    = Returns ''message to be replaced''"
    and panics: "replace test_runtime ''message to bee replaced'' ''('' ''x''
                    = Panics (Regexp_Compile ErrMissingParen)"
    by code_simp+
  have update: "Call_UpdatePost (stored_post ''p1'' 5 ''other'' ''first'')
          \<in> set (snd (MessageWillBePosted test_runtime no_update_api ?cmd))"
    and no_update: "isl (UpdatePost no_update_api (stored_post ''p1'' 5 ''other'' ''first''))"
    by code_simp+
  have "Call_SendEphemeralPost ''testUserId''
        \<lparr>Post.Id = [], CreateAt = 1000, UserId = [], ChannelId = ''testChannelId'', RootId = [],
         Message = ''s/ Replaced '' @ [CHR 0x22] @ ''bee'' @ [CHR 0x22] @ '' for '' @ [CHR 0x22]
                   @ ''be'' @ [CHR 0x22]\<rparr>
      \<in> set (snd (MessageWillBePosted test_runtime (test_api example_posts) ?cmd))"
    by code_simp
  then have noticed: "\<exists>u n. Call_SendEphemeralPost u n
      \<in> set (snd (MessageWillBePosted test_runtime (test_api example_posts) ?cmd))"
    by blast
  note a = command_outcomes
             [OF bad, where rt = test_runtime and api = "test_api example_posts", THEN conjunct1]
  note b = command_outcomes
             [OF cmd, where rt = test_runtime and api = no_user_api,
              THEN conjunct2, THEN conjunct1]
  note c = command_outcomes
             [OF cmd, where rt = test_runtime and api = no_channel_api,
              THEN conjunct2, THEN conjunct2, THEN conjunct1]
  note d = command_outcomes
             [OF cmd, where rt = test_runtime and api = no_search_api and strs = "[''bee'', ''be'']"
                and user = ?user and ch = ?ch and found = None
                and errId = "''SearchPostsInTeam: failed, ''" and search = ?search,
              THEN conjunct2, THEN conjunct2, THEN conjunct2, THEN conjunct1]
  note e = command_outcomes
             [OF cmd, where rt = test_runtime and api = "test_api []" and strs = "[''bee'', ''be'']"
                and user = ?user and ch = ?ch and found = None
                and errId = noPostsFoundError and search = ?search,
              THEN conjunct2, THEN conjunct2, THEN conjunct2, THEN conjunct1]
  note f = command_outcomes
             [OF reply, where rt = test_runtime and api = no_update_api
                and strs = "[''bee'', ''be'']" and user = ?user and ch = ?ch and lastPost = ?p2
                and search = ?thread and message = "''message to be replaced''",
              THEN conjunct2, THEN conjunct2, THEN conjunct2, THEN conjunct2, THEN conjunct1]
  note g = command_outcomes
             [OF reply, where rt = test_runtime and api = "test_api example_posts"
                and strs = "[''bee'', ''be'']" and user = ?user and ch = ?ch and lastPost = ?p2
                and search = ?thread and message = "''message to be replaced''",
              THEN conjunct2, THEN conjunct2, THEN conjunct2, THEN conjunct2, THEN conjunct2,
              THEN conjunct1]
  note h = command_outcomes
             [OF bracket, where rt = class_runtime and api = "test_api example_posts"
                and strs = "[''[b]ee'', ''be'']" and user = ?user and ch = ?ch and lastPost = ?p2
                and search = ?thread and message = "''message to be replaced''",
              THEN conjunct2, THEN conjunct2, THEN conjunct2, THEN conjunct2, THEN conjunct2,
              THEN conjunct1]
  note i = command_outcomes
             [OF paren, where rt = test_runtime and api = "test_api example_posts"
                and strs = "[''('', ''x'']" and user = ?user and ch = ?ch and lastPost = ?p2
                and search = ?thread and e = "Regexp_Compile ErrMissingParen",
              THEN conjunct2, THEN conjunct2, THEN conjunct2, THEN conjunct2, THEN conjunct2,
              THEN conjunct2, THEN conjunct1]
  note j = command_outcomes
             [OF cmd, where rt = test_runtime and api = no_update_api,
              THEN conjunct2, THEN conjunct2, THEN conjunct2, THEN conjunct2, THEN conjunct2,
              THEN conjunct2, THEN conjunct2, THEN conjunct1]
  note k = command_outcomes
             [OF cmd, where rt = test_runtime and api = "test_api example_posts",
              THEN conjunct2, THEN conjunct2, THEN conjunct2, THEN conjunct2, THEN conjunct2,
              THEN conjunct2, THEN conjunct2, THEN conjunct2, THEN conjunct1]
  have user_c: "GetUser (test_api example_posts) (UserId ?bracket) = Inr ?user"
    and ch_c: "GetChannel (test_api example_posts) (ChannelId ?bracket) = Inr ?ch"
    and target_c: "getLastPost class_runtime (test_api example_posts) ?user (TeamId ?ch) (RootId ?bracket)
                    = (Returns (Some ?p2, []), ?thread)"
    and user_p: "GetUser (test_api example_posts) (UserId ?paren) = Inr ?user"
    and ch_p: "GetChannel (test_api example_posts) (ChannelId ?paren) = Inr ?ch"
    and target_p: "getLastPost test_runtime (test_api example_posts) ?user (TeamId ?ch) (RootId ?paren)
                    = (Returns (Some ?p2, []), ?thread)"
    by code_simp+
  from a bad_fails
  have 1: "MessageWillBePosted test_runtime (test_api example_posts) ?bad
        = (Returns (None, dismiss_post),
           [Call_SendEphemeralPost ''testUserId''
              (notice test_runtime ?bad (''Invalid command format. '' @ usage))])"
    by (simp add: ids)
  from b parses no_user
  have 2: "MessageWillBePosted test_runtime no_user_api ?cmd
            = (Returns (None, []), [Call_GetUser ''testUserId''])"
    by (simp add: ids)
  from c parses user no_channel
  have 3: "MessageWillBePosted test_runtime no_channel_api ?cmd
            = (Returns (None, []), [Call_GetUser ''testUserId'', Call_GetChannel ''testChannelId''])"
    by (simp add: ids)
  from d parsed user_s ch_s target_s failed
  have 4: "MessageWillBePosted test_runtime no_search_api ?cmd
        = (Returns (None, dismiss_post),
           [Call_GetUser ''testUserId'', Call_GetChannel ''testChannelId'',
            Call_SearchPostsInTeam ''testTeamId'' (ParseSearchParams ''from:test'' 0),
            Call_SendEphemeralPost ''testUserId''
              (notice test_runtime ?cmd ''SearchPostsInTeam: failed, '')])"
    by (simp add: ids)
  from e parsed user_e ch_e target_e none
  have 5: "MessageWillBePosted test_runtime (test_api []) ?cmd
        = (Returns (None, dismiss_post),
           [Call_GetUser ''testUserId'', Call_GetChannel ''testChannelId'',
            Call_SearchPostsInTeam ''testTeamId'' (ParseSearchParams ''from:test'' 0),
            Call_SendEphemeralPost ''testUserId'' (notice test_runtime ?cmd noPostsFoundError)])"
    by (simp add: ids)
  from f parsed_reply user_u ch_u target_u replaced refused
  have 6: "MessageWillBePosted test_runtime no_update_api ?reply
        = (Returns (None, []),
           [Call_GetUser ''testUserId'', Call_GetChannel ''testChannelId'',
            Call_GetPostThread ''123'',
            Call_UpdatePost (stored_post ''p2'' 7 ''testUserId'' ''message to be replaced'')])"
    by (simp add: ids)
  from g parsed_reply user_t ch_t target_t replaced updated
  have 7: "MessageWillBePosted test_runtime (test_api example_posts) ?reply
        = (Returns (None, dismiss_post),
           [Call_GetUser ''testUserId'', Call_GetChannel ''testChannelId'',
            Call_GetPostThread ''123'',
            Call_UpdatePost (stored_post ''p2'' 7 ''testUserId'' ''message to be replaced''),
            Call_SendEphemeralPost ''testUserId''
              (notice test_runtime ?reply
                 (''s/ Replaced '' @ [CHR 0x22] @ ''bee'' @ [CHR 0x22] @ '' for ''
                  @ [CHR 0x22] @ ''be'' @ [CHR 0x22]))])"
    by (simp add: ids)
  from h parsed_bracket user_c ch_c target_c replaced_bracket updated
  have 8: "MessageWillBePosted class_runtime (test_api example_posts) ?bracket
        = (Returns (None, dismiss_post),
           [Call_GetUser ''testUserId'', Call_GetChannel ''testChannelId'',
            Call_GetPostThread ''123'',
            Call_UpdatePost (stored_post ''p2'' 7 ''testUserId'' ''message to be replaced''),
            Call_SendEphemeralPost ''testUserId''
              (notice class_runtime ?bracket
                 (''s/ Replaced '' @ [CHR 0x22] @ ''[b]ee'' @ [CHR 0x22] @ '' for ''
                  @ [CHR 0x22] @ ''be'' @ [CHR 0x22]))])"
    by (simp add: ids)
  from i parsed_paren user_p ch_p target_p panics
  have 9: "MessageWillBePosted test_runtime (test_api example_posts) ?paren
        = (Panics (Regexp_Compile ErrMissingParen),
           [Call_GetUser ''testUserId'', Call_GetChannel ''testChannelId'',
            Call_GetPostThread ''123''])"
    by (simp add: ids)
  from j update no_update
  have 10: "fst (MessageWillBePosted test_runtime no_update_api ?cmd) = Returns (None, [])"
    by blast
  from k noticed
  have 11: "fst (MessageWillBePosted test_runtime (test_api example_posts) ?cmd)
        = Returns (None, dismiss_post)"
    by blast
  from bad bad_fails 1 cmd parses no_user 2 user no_channel 3 target_s 4 target_e 5
    replaced refused 6 updated 7 parsed_bracket replaced_bracket 8 panics 9 update no_update 10
    noticed 11
  show ?thesis
    by (intro conjI)
qed

subsection \<open>The target of a command in a thread\<close>

lemma add_orders_aux:
  "Posts (foldl (\<lambda>o' (key, post). AddOrder o' (Post.Id post)) o' ps) = Posts o'
   \<and> Order (foldl (\<lambda>o' (key, post). AddOrder o' (Post.Id post)) o' ps)
       = Order o' @ map (\<lambda>(key, post). Post.Id post) ps"
  by (induction ps arbitrary: o') (auto simp: AddOrder_def)

lemma Posts_add_orders: "Posts (add_orders o') = Posts o'"
  by (simp add: add_orders_def add_orders_aux)

lemma Order_add_orders:
  "Order (add_orders o') = Order o' @ map (\<lambda>(key, post). Post.Id post) (Posts o')"
  by (simp add: add_orders_def add_orders_aux)

lemma newer_Posts: "Posts a = Posts b \<Longrightarrow> newer a = newer b"
  by (intro ext) (simp add: newer_def)

lemma first_post_of_sorted:
  assumes "Posts pl = ps" and "set keys \<subseteq> fst ` set ps"
    and "sorted_wrt (\<lambda>a b. \<not> newer pl b a) keys"
  shows "if \<exists>k \<in> set keys. \<exists>q. map_of ps k = Some q \<and> UserId q = User.Id user
         then \<exists>k \<in> set keys. \<exists>p. map_of ps k = Some p
                \<and> first_post_of pl user keys = Returns (Some p, [])
                \<and> UserId p = User.Id user
                \<and> (\<forall>k' \<in> set keys. \<forall>q. map_of ps k' = Some q \<and> UserId q = User.Id user
                      \<longrightarrow> CreateAt q \<le> CreateAt p)
         else first_post_of pl user keys = Returns (None, noPostsFoundError)"
  using assms(2,3)
proof (induction keys)
  case Nil
  then show ?case by simp
next
  case (Cons k keys)
  from Cons.prems(1) obtain p where p: "map_of ps k = Some p"
    by (metis list.set_intros(1) map_of_eq_None_iff not_Some_eq subsetD)
  from Cons.prems have IH: "if \<exists>k \<in> set keys. \<exists>q. map_of ps k = Some q \<and> UserId q = User.Id user
         then \<exists>k \<in> set keys. \<exists>p. map_of ps k = Some p
                \<and> first_post_of pl user keys = Returns (Some p, [])
                \<and> UserId p = User.Id user
                \<and> (\<forall>k' \<in> set keys. \<forall>q. map_of ps k' = Some q \<and> UserId q = User.Id user
                      \<longrightarrow> CreateAt q \<le> CreateAt p)
         else first_post_of pl user keys = Returns (None, noPostsFoundError)"
    by (intro Cons.IH) simp_all
  show ?case
  proof (cases "UserId p = User.Id user")
    case True
    have "\<forall>k' \<in> set keys. \<forall>q. map_of ps k' = Some q \<longrightarrow> CreateAt q \<le> CreateAt p"
    proof (intro ballI allI impI)
      fix k' q assume "k' \<in> set keys" and q: "map_of ps k' = Some q"
      with Cons.prems(2) have "\<not> newer pl k' k" by simp
      with p q assms(1) show "CreateAt q \<le> CreateAt p" by (simp add: newer_def)
    qed
    with True p assms(1) show ?thesis by auto
  next
    case False
    with p IH assms(1) show ?thesis by (auto split: if_splits)
  qed
qed

text \<open>
  C5. For a command in a thread (non-empty root id) whose thread the host returns,
  well-formed and sorted newest first by \<^verbatim>\<open>sort.Slice\<close>: the only call is the fetch of
  that thread; if the thread holds a post of the invoking user, the target is a post of
  the thread, by that user, and no post of the user in the thread is newer; if it
  holds none, the result is the notice that there is no previous post.
\<close>

theorem thread_target_is_newest_own_post:
  assumes root: "rootId \<noteq> []"
    and thread: "GetPostThread api rootId = Inr thread"
    and keyed: "keyed_by_id thread"
    and sorts: "sorts_newest_first rt (add_orders thread)"
  shows "snd (getLastPost rt api user teamId rootId) = [Call_GetPostThread rootId]
    \<and> (if \<exists>q \<in> snd ` set (Posts thread). UserId q = User.Id user
        then \<exists>p \<in> snd ` set (Posts thread).
               fst (getLastPost rt api user teamId rootId) = Returns (Some p, [])
               \<and> UserId p = User.Id user
               \<and> (\<forall>q \<in> snd ` set (Posts thread).
                     UserId q = User.Id user \<longrightarrow> CreateAt q \<le> CreateAt p)
        else fst (getLastPost rt api user teamId rootId) = Returns (None, noPostsFoundError))"
proof -
  define o1 where "o1 = add_orders thread"
  define keys where "keys = sort_Slice rt (newer o1) (Order o1)"
  have posts: "Posts o1 = Posts thread" by (simp add: o1_def Posts_add_orders)
  from keyed have ids: "map (\<lambda>(key, post). Post.Id post) (Posts thread) = map fst (Posts thread)"
    by (auto simp: keyed_by_id_def)
  with keyed have order: "set (Order o1) = fst ` set (Posts thread)"
    by (auto simp: o1_def Order_add_orders keyed_by_id_def)
  from sorts have perm: "mset keys = mset (Order o1)"
    and sorted: "sorted_wrt (\<lambda>a b. \<not> newer o1 b a) keys"
    by (simp_all add: sorts_newest_first_def o1_def keys_def)
  from perm have "set keys = set (Order o1)" by (rule mset_eq_setD)
  with order have keys: "set keys = fst ` set (Posts thread)" by simp
  from order have present: "\<not> (\<exists>k \<in> set (Order o1). map_of (Posts o1) k = None)"
    by (simp add: posts map_of_eq_None_iff)
  then have sort: "SortByCreateAt rt o1 = Returns (o1\<lparr>Order := keys\<rparr>)"
    by (simp add: SortByCreateAt_def keys_def)
  have result: "getLastPost rt api user teamId rootId
                  = (first_post_of (o1\<lparr>Order := keys\<rparr>) user keys, [Call_GetPostThread rootId])"
    using root thread sort by (simp add: getLastPost_def o1_def)
  have newer: "newer (o1\<lparr>Order := keys\<rparr>) = newer o1"
    by (rule newer_Posts) simp
  have lookup: "\<And>k q. map_of (Posts thread) k = Some q \<longleftrightarrow> (k, q) \<in> set (Posts thread)"
    using keyed by (simp add: keyed_by_id_def)
  have "Posts (o1\<lparr>Order := keys\<rparr>) = Posts thread" by (simp add: posts)
  moreover have "set keys \<subseteq> fst ` set (Posts thread)" by (simp add: keys)
  moreover have "sorted_wrt (\<lambda>a b. \<not> newer (o1\<lparr>Order := keys\<rparr>) b a) keys"
    using sorted by (simp add: newer)
  ultimately have fp:
    "if \<exists>k \<in> set keys. \<exists>q. map_of (Posts thread) k = Some q \<and> UserId q = User.Id user
     then \<exists>k \<in> set keys. \<exists>p. map_of (Posts thread) k = Some p
            \<and> first_post_of (o1\<lparr>Order := keys\<rparr>) user keys = Returns (Some p, [])
            \<and> UserId p = User.Id user
            \<and> (\<forall>k' \<in> set keys. \<forall>q. map_of (Posts thread) k' = Some q \<and> UserId q = User.Id user
                  \<longrightarrow> CreateAt q \<le> CreateAt p)
     else first_post_of (o1\<lparr>Order := keys\<rparr>) user keys = Returns (None, noPostsFoundError)"
    by (rule first_post_of_sorted)
  have own: "(\<exists>k \<in> set keys. \<exists>q. map_of (Posts thread) k = Some q \<and> UserId q = User.Id user)
              \<longleftrightarrow> (\<exists>q \<in> snd ` set (Posts thread). UserId q = User.Id user)"
    unfolding keys lookup by force
  show ?thesis
  proof (cases "\<exists>q \<in> snd ` set (Posts thread). UserId q = User.Id user")
    case True
    with own have "\<exists>k \<in> set keys. \<exists>q. map_of (Posts thread) k = Some q \<and> UserId q = User.Id user"
      by simp
    with fp obtain k p where k: "k \<in> set keys" and p: "map_of (Posts thread) k = Some p"
      and r: "first_post_of (o1\<lparr>Order := keys\<rparr>) user keys = Returns (Some p, [])"
      and u: "UserId p = User.Id user"
      and newest: "\<forall>k' \<in> set keys. \<forall>q. map_of (Posts thread) k' = Some q \<and> UserId q = User.Id user
                      \<longrightarrow> CreateAt q \<le> CreateAt p"
      by (simp split: if_splits) blast
    from p have mem: "p \<in> snd ` set (Posts thread)" unfolding lookup by force
    have "\<forall>q \<in> snd ` set (Posts thread). UserId q = User.Id user \<longrightarrow> CreateAt q \<le> CreateAt p"
    proof (intro ballI impI)
      fix q assume "q \<in> snd ` set (Posts thread)" and uq: "UserId q = User.Id user"
      then obtain k' where kq: "(k', q) \<in> set (Posts thread)" by auto
      then have "k' \<in> set keys" unfolding keys by force
      with newest kq uq show "CreateAt q \<le> CreateAt p" unfolding lookup by blast
    qed
    with True mem r u result show ?thesis by auto
  next
    case False
    with own have "\<not> (\<exists>k \<in> set keys. \<exists>q. map_of (Posts thread) k = Some q \<and> UserId q = User.Id user)"
      by simp
    with fp have "first_post_of (o1\<lparr>Order := keys\<rparr>) user keys = Returns (None, noPostsFoundError)"
      by (simp split: if_splits)
    with False result show ?thesis by simp
  qed
qed


theorem thread_target_is_newest_own_post_witness:
  "''123'' \<noteq> [] \<and> GetPostThread (test_api example_posts) ''123'' = Inr example_thread
   \<and> getLastPost test_runtime (test_api example_posts)
        \<lparr>User.Id = ''testUserId'', Username = ''test''\<rparr> ''testTeamId'' ''123''
       = (Returns (Some (stored_post ''p2'' 7 ''testUserId'' ''message to bee replaced''), []),
          [Call_GetPostThread ''123''])
   \<and> CreateAt (stored_post ''p3'' 6 ''testUserId'' ''older bee'')
       \<le> CreateAt (stored_post ''p2'' 7 ''testUserId'' ''message to bee replaced'')"
proof -
  have a: "''123'' \<noteq> []" by simp
  have b: "GetPostThread (test_api example_posts) ''123'' = Inr example_thread"
    by (simp add: test_api_def example_thread_def)
  have c: "keyed_by_id example_thread" by code_simp
  have d: "sorts_newest_first test_runtime (add_orders example_thread)" by code_simp
  have e: "getLastPost test_runtime (test_api example_posts)
        \<lparr>User.Id = ''testUserId'', Username = ''test''\<rparr> ''testTeamId'' ''123''
       = (Returns (Some (stored_post ''p2'' 7 ''testUserId'' ''message to bee replaced''), []),
          [Call_GetPostThread ''123''])"
    by code_simp
  have older: "stored_post ''p3'' 6 ''testUserId'' ''older bee'' \<in> snd ` set (Posts example_thread)"
    by (simp add: example_thread_def example_posts_def)
  then have own: "\<exists>q \<in> snd ` set (Posts example_thread).
               UserId q = User.Id \<lparr>User.Id = ''testUserId'', Username = ''test''\<rparr>"
    by (intro bexI [of _ "stored_post ''p3'' 6 ''testUserId'' ''older bee''"])
       (simp_all add: stored_post_def)
  from thread_target_is_newest_own_post
         [OF a b c d, of "\<lparr>User.Id = ''testUserId'', Username = ''test''\<rparr>" "''testTeamId''"] own
  obtain p where
    "fst (getLastPost test_runtime (test_api example_posts)
           \<lparr>User.Id = ''testUserId'', Username = ''test''\<rparr> ''testTeamId'' ''123'')
      = Returns (Some p, [])"
    and "\<forall>q \<in> snd ` set (Posts example_thread).
           UserId q = User.Id \<lparr>User.Id = ''testUserId'', Username = ''test''\<rparr>
           \<longrightarrow> CreateAt q \<le> CreateAt p"
    by (auto split: if_splits)
  with e have "\<forall>q \<in> snd ` set (Posts example_thread).
         UserId q = ''testUserId''
         \<longrightarrow> CreateAt q \<le> CreateAt (stored_post ''p2'' 7 ''testUserId'' ''message to bee replaced'')"
    by simp
  with older have f: "CreateAt (stored_post ''p3'' 6 ''testUserId'' ''older bee'')
       \<le> CreateAt (stored_post ''p2'' 7 ''testUserId'' ''message to bee replaced'')"
    by (auto simp: stored_post_def)
  from a b e f show ?thesis by (intro conjI)
qed

end
